theory Spec2Isabelle
  imports Complex_Main
begin

section \<open>Errors\<close>

text \<open>
  \<^verbatim>\<open>ErrorType\<close> and \<^verbatim>\<open>AppError\<close> of \<^verbatim>\<open>utils/error.utils.ts\<close>. A thrown value is
  an \<^verbatim>\<open>AppError\<close> (type, message, status code), the schema validator's
  \<^verbatim>\<open>ZodError\<close> (with the message of its issue), a Prisma request error (with its
  code and message), or a plain \<^verbatim>\<open>Error\<close> (with its message). All of them are
  instances of \<^verbatim>\<open>Error\<close>; \<open>thrown\<close> adds the values that are not.
\<close>

datatype ErrorType =
    VALIDATION | NOT_FOUND | UNAUTHORIZED | FORBIDDEN | RATE_LIMIT | DATABASE
  | EXTERNAL_SERVICE | INTERNAL | CONFLICT | BAD_REQUEST

datatype error =
    AppError ErrorType string int
  | ZodError string
  | PrismaError string string
  | Error string

datatype thrown = ThrownError error | ThrownOther

fun errorMessage :: "error \<Rightarrow> string" where
  "errorMessage (AppError t m c) = m"
| "errorMessage (ZodError m) = m"
| "errorMessage (PrismaError c m) = m"
| "errorMessage (Error m) = m"

text \<open>\<^verbatim>\<open>handlePrismaError\<close>, on the code of the Prisma error.\<close>

definition handlePrismaError :: "string \<Rightarrow> error" where
  "handlePrismaError code =
     (if code = ''P2002'' then AppError VALIDATION ''Unique constraint violation'' 409
      else if code = ''P2025'' then AppError NOT_FOUND ''Record not found'' 404
      else if code = ''P2003'' then AppError VALIDATION ''Foreign key constraint violation'' 400
      else AppError DATABASE ''Database operation failed'' 500)"

section \<open>Rate limiter (services/rate-limit.service.ts)\<close>

text \<open>
  Times are milliseconds since the epoch (\<^verbatim>\<open>Date.getTime()\<close>). A row of the
  \<^verbatim>\<open>RateLimit\<close> table is addressed by its unique pair (key, endpoint); the table
  is a map from that pair to the row. The columns \<^verbatim>\<open>createdAt\<close> and
  \<^verbatim>\<open>updatedAt\<close>, which the service never reads, are left out.
\<close>

record RateLimit =
  rl_id :: string
  rl_key :: string
  rl_endpoint :: string
  rl_count :: int
  rl_resetAt :: int

type_synonym RateLimitTable = "string \<times> string \<rightharpoonup> RateLimit"

record RateLimitConfig =
  windowMs :: int
  max_cfg :: int
  message :: string
  statusCode :: int
  headers :: bool

record PartialRateLimitConfig =
  p_windowMs :: "int option"
  p_max :: "int option"
  p_message :: "string option"
  p_statusCode :: "int option"
  p_headers :: "bool option"

record RateLimitInfo =
  limit :: int
  remaining :: int
  reset :: int

record RateLimitCheck =
  isLimited :: bool
  limitInfo :: RateLimitInfo

definition DEFAULT_CONFIG :: RateLimitConfig where
  "DEFAULT_CONFIG =
     \<lparr>windowMs = 60000, max_cfg = 100,
      message = ''Too many requests, please try again later.'',
      statusCode = 429, headers = True\<rparr>"

definition orElse :: "'a option \<Rightarrow> 'a \<Rightarrow> 'a" where
  "orElse v d = (case v of None \<Rightarrow> d | Some x \<Rightarrow> x)"

definition validateAndMergeConfig :: "PartialRateLimitConfig \<Rightarrow> error + RateLimitConfig" where
  "validateAndMergeConfig config =
     (if p_windowMs config \<noteq> None \<and> the (p_windowMs config) \<le> 0
      then Inl (AppError VALIDATION ''Window size must be greater than 0'' 400)
      else if p_max config \<noteq> None \<and> the (p_max config) \<le> 0
      then Inl (AppError VALIDATION ''Maximum requests must be greater than 0'' 400)
      else Inr \<lparr>windowMs = orElse (p_windowMs config) (windowMs DEFAULT_CONFIG),
                max_cfg = orElse (p_max config) (max_cfg DEFAULT_CONFIG),
                message = orElse (p_message config) (message DEFAULT_CONFIG),
                statusCode = orElse (p_statusCode config) (statusCode DEFAULT_CONFIG),
                headers = orElse (p_headers config) (headers DEFAULT_CONFIG)\<rparr>)"

text \<open>The three Prisma operations the service uses on the table.\<close>

definition findUnique :: "RateLimitTable \<Rightarrow> string \<Rightarrow> string \<Rightarrow> RateLimit option" where
  "findUnique tbl key endpoint = tbl (key, endpoint)"

definition upsert ::
  "RateLimitTable \<Rightarrow> string \<Rightarrow> string \<Rightarrow> string \<Rightarrow> int \<Rightarrow> int \<Rightarrow> RateLimit \<times> RateLimitTable" where
  "upsert tbl newId key endpoint cnt resetAt =
     (let row = (case tbl (key, endpoint) of
                   Some r \<Rightarrow> r\<lparr>rl_count := cnt, rl_resetAt := resetAt\<rparr>
                 | None \<Rightarrow> \<lparr>rl_id = newId, rl_key = key, rl_endpoint = endpoint,
                             rl_count = cnt, rl_resetAt = resetAt\<rparr>)
      in (row, tbl((key, endpoint) \<mapsto> row)))"

text \<open>
  \<^verbatim>\<open>update({ where: { id }, data: { count: { increment: 1 } } })\<close>, for the id of
  a row read under (key, endpoint): the row is addressed by that pair, and the operation
  rejects with Prisma's P2025 when the row is not there.
\<close>

definition update_increment ::
  "RateLimitTable \<Rightarrow> string \<Rightarrow> string \<Rightarrow> error + RateLimit \<times> RateLimitTable" where
  "update_increment tbl key endpoint =
     (case tbl (key, endpoint) of
        None \<Rightarrow> Inl (PrismaError ''P2025'' ''Record to update not found.'')
      | Some r \<Rightarrow>
          (let row = r\<lparr>rl_count := rl_count r + 1\<rparr>
           in Inr (row, tbl((key, endpoint) \<mapsto> row))))"

definition getOrCreateRateLimit ::
  "RateLimitTable \<Rightarrow> string \<Rightarrow> string \<Rightarrow> string \<Rightarrow> int \<Rightarrow> int
     \<Rightarrow> error + RateLimit \<times> RateLimitTable" where
  "getOrCreateRateLimit tbl newId key endpoint now resetAt =
     (case findUnique tbl key endpoint of
        None \<Rightarrow> Inr (upsert tbl newId key endpoint 1 resetAt)
      | Some rateLimit \<Rightarrow>
          if rl_resetAt rateLimit < now
          then Inr (upsert tbl newId key endpoint 1 resetAt)
          else (case update_increment tbl key endpoint of
                  Inl e \<Rightarrow> Inl e
                | Inr (updatedRateLimit, tbl') \<Rightarrow>
                    Inr (updatedRateLimit\<lparr>rl_resetAt := rl_resetAt rateLimit\<rparr>, tbl')))"

definition calculateLimitInfo :: "RateLimitConfig \<Rightarrow> int \<Rightarrow> int \<Rightarrow> RateLimitCheck" where
  "calculateLimitInfo config cnt resetAt =
     (let remaining = max 0 (max_cfg config - cnt);
          isLimited = (cnt > max_cfg config)
      in \<lparr>isLimited = isLimited,
          limitInfo = \<lparr>limit = max_cfg config, remaining = remaining,
                       reset = resetAt div 1000\<rparr>\<rparr>)"

text \<open>
  \<^verbatim>\<open>checkRateLimit\<close>: \<open>now\<close> is the value of \<^verbatim>\<open>new Date()\<close>, \<open>newId\<close> the id the
  store gives a row it creates. Any error of the store is rethrown as an internal error.
  The result is paired with the table after the call.
\<close>

definition checkRateLimit ::
  "RateLimitConfig \<Rightarrow> RateLimitTable \<Rightarrow> string \<Rightarrow> string \<Rightarrow> string \<Rightarrow> int
     \<Rightarrow> (error + RateLimitCheck) \<times> RateLimitTable" where
  "checkRateLimit config tbl newId key endpoint now =
     (let resetAt = now + windowMs config
      in case getOrCreateRateLimit tbl newId key endpoint now resetAt of
           Inl e \<Rightarrow> (Inl (AppError INTERNAL ''Failed to check rate limit'' 500), tbl)
         | Inr (rateLimit, tbl') \<Rightarrow>
             (Inr (calculateLimitInfo config (rl_count rateLimit) (rl_resetAt rateLimit)), tbl'))"

text \<open>
  The constructor's default argument, and a table holding one row whose window ends exactly
  at the time of the request.
\<close>

definition noOverrides :: PartialRateLimitConfig where
  "noOverrides = \<lparr>p_windowMs = None, p_max = None, p_message = None, p_statusCode = None,
                   p_headers = None\<rparr>"

definition boundary_row :: RateLimit where
  "boundary_row = \<lparr>rl_id = ''1'', rl_key = ''user123'', rl_endpoint = ''api:events'',
                    rl_count = 5, rl_resetAt = 1000\<rparr>"

definition boundary_tbl :: RateLimitTable where
  "boundary_tbl = [(''user123'', ''api:events'') \<mapsto> boundary_row]"

section \<open>Aggregation planner (utils/time-series.utils.ts)\<close>

text \<open>
  A \<^verbatim>\<open>Date\<close> is its time value, the milliseconds since the epoch, of a valid date
  within the range of \<^verbatim>\<open>Date\<close>. The intervals are the string keys of
  \<^verbatim>\<open>INTERVAL_CONFIGS\<close>.
\<close>

record TimeSeriesConfig =
  viewName :: string
  pgInterval :: string
  maxTimeRange :: int

definition INTERVAL_CONFIGS :: "(string \<times> TimeSeriesConfig) list" where
  "INTERVAL_CONFIGS =
     [(''1m'', \<lparr>viewName = ''events_1m'', pgInterval = ''1 minute'',
               maxTimeRange = 24 * 60 * 60 * 1000\<rparr>),
      (''5m'', \<lparr>viewName = ''events_5m'', pgInterval = ''5 minutes'',
               maxTimeRange = 7 * 24 * 60 * 60 * 1000\<rparr>),
      (''15m'', \<lparr>viewName = ''events_15m'', pgInterval = ''15 minutes'',
                maxTimeRange = 30 * 24 * 60 * 60 * 1000\<rparr>),
      (''1h'', \<lparr>viewName = ''events_1h'', pgInterval = ''1 hour'',
               maxTimeRange = 90 * 24 * 60 * 60 * 1000\<rparr>),
      (''1d'', \<lparr>viewName = ''events_1d'', pgInterval = ''1 day'',
               maxTimeRange = 365 * 24 * 60 * 60 * 1000\<rparr>)]"

definition getConfig :: "string \<Rightarrow> error + TimeSeriesConfig" where
  "getConfig interval =
     (case map_of INTERVAL_CONFIGS interval of
        None \<Rightarrow> Inl (Error (''Invalid interval: '' @ interval))
      | Some config \<Rightarrow> Inr config)"

text \<open>The decimal digits of a natural number, as a template literal prints it.\<close>

fun showNat :: "nat \<Rightarrow> string" where
  "showNat n =
     (if n < 10 then [''0123456789'' ! n]
      else showNat (n div 10) @ [''0123456789'' ! (n mod 10)])"

declare showNat.simps [simp del]

definition validateTimeRangeForInterval :: "string \<Rightarrow> int \<Rightarrow> int \<Rightarrow> error + unit" where
  "validateTimeRangeForInterval interval startTime endTime =
     (case getConfig interval of
        Inl e \<Rightarrow> Inl e
      | Inr config \<Rightarrow>
          (let timeRange = endTime - startTime
           in if timeRange \<le> 0
              then Inl (AppError VALIDATION ''End time must be after start time'' 400)
              else if timeRange > maxTimeRange config
              then (let maxDays = maxTimeRange config div (24 * 60 * 60 * 1000)
                    in Inl (AppError VALIDATION
                         (''Time range too large for '' @ interval
                            @ '' interval. Maximum range is '' @ showNat (nat maxDays)
                            @ '' days.'') 400))
              else Inr ()))"

text \<open>
  The fields of an \<^verbatim>\<open>AggregationQuery\<close> that \<^verbatim>\<open>aggregate\<close> reads; the two times
  are the values of \<^verbatim>\<open>new Date(startTime)\<close> and \<^verbatim>\<open>new Date(endTime)\<close>. The other
  fields of a query (paging, filters) live in the record's extension.
\<close>

record AggregationQuery =
  q_startTime :: int
  q_endTime :: int
  q_interval :: string

record AggregationResult =
  agg_interval :: string
  agg_viewName :: string
  agg_data :: "unit list"

definition aggregate :: "'a AggregationQuery_scheme \<Rightarrow> error + AggregationResult" where
  "aggregate query =
     (case validateTimeRangeForInterval (q_interval query) (q_startTime query) (q_endTime query) of
        Inl e \<Rightarrow> Inl e
      | Inr _ \<Rightarrow>
          (case getConfig (q_interval query) of
             Inl e \<Rightarrow> Inl e
           | Inr config \<Rightarrow>
               Inr \<lparr>agg_interval = q_interval query, agg_viewName = viewName config,
                    agg_data = []\<rparr>))"

definition getViewName :: "string \<Rightarrow> error + string" where
  "getViewName interval = map_sum (\<lambda>e. e) viewName (getConfig interval)"

definition getPostgresInterval :: "string \<Rightarrow> error + string" where
  "getPostgresInterval interval = map_sum (\<lambda>e. e) pgInterval (getConfig interval)"

definition suggestInterval :: "int \<Rightarrow> int \<Rightarrow> string" where
  "suggestInterval startTime endTime =
     (let diffInHours = real_of_int \<bar>endTime - startTime\<bar> / (1000 * 60 * 60)
      in if diffInHours \<le> 24 then ''1h''
         else if diffInHours \<le> 24 * 7 then ''1d''
         else if diffInHours \<le> 24 * 30 then ''1d''
         else ''1d'')"

text \<open>
  \<^verbatim>\<open>d.setHours(d.getHours() + 1)\<close> and \<^verbatim>\<open>d.setDate(d.getDate() + 1)\<close> work on the
  local-time fields of the date. The model is of a process whose time zone has a fixed
  offset from UTC (\<^verbatim>\<open>TZ=UTC\<close>, the default of the container image), where they add
  one hour and one day to the time value.
\<close>

definition addLocalHour :: "int \<Rightarrow> int" where
  "addLocalHour t = t + 60 * 60 * 1000"

definition addLocalDay :: "int \<Rightarrow> int" where
  "addLocalDay t = t + 24 * 60 * 60 * 1000"

record Bucket =
  b_start :: int
  b_end :: int

definition nextBucketEnd :: "int \<Rightarrow> int \<Rightarrow> int \<Rightarrow> int" where
  "nextBucketEnd startTime endTime currentTime =
     (let interval = suggestInterval startTime endTime;
          bucketEnd = (if interval = ''1h'' then addLocalHour currentTime
                       else if interval = ''1d'' then addLocalDay currentTime
                       else addLocalDay currentTime)
      in if bucketEnd > endTime then endTime else bucketEnd)"

lemma nextBucketEnd_progress:
  "currentTime < endTime \<Longrightarrow> currentTime < nextBucketEnd startTime endTime currentTime"
  by (simp add: nextBucketEnd_def addLocalHour_def addLocalDay_def Let_def)

text \<open>
  The \<^verbatim>\<open>while (currentTime < endTime)\<close> loop of \<^verbatim>\<open>generateBuckets\<close>; one pass
  computes the end of the bucket (\<open>nextBucketEnd\<close>: the step of the suggested interval,
  clipped to \<open>endTime\<close>), pushes the bucket and moves \<open>currentTime\<close> to its end.
\<close>

function generateBuckets_loop :: "int \<Rightarrow> int \<Rightarrow> int \<Rightarrow> Bucket list \<Rightarrow> Bucket list" where
  "generateBuckets_loop startTime endTime currentTime buckets =
     (if currentTime < endTime
      then generateBuckets_loop startTime endTime
             (nextBucketEnd startTime endTime currentTime)
             (buckets @ [\<lparr>b_start = currentTime,
                          b_end = nextBucketEnd startTime endTime currentTime\<rparr>])
      else buckets)"
  by pat_completeness auto
termination
proof (relation "measure (\<lambda>(startTime, endTime, currentTime, buckets). nat (endTime - currentTime))")
  show "wf (measure (\<lambda>(startTime, endTime, currentTime, buckets). nat (endTime - currentTime)))"
    by simp
next
  fix startTime endTime currentTime :: int and buckets :: "Bucket list"
  assume "currentTime < endTime"
  then show "((startTime, endTime, nextBucketEnd startTime endTime currentTime,
               buckets @ [\<lparr>b_start = currentTime,
                            b_end = nextBucketEnd startTime endTime currentTime\<rparr>]),
              (startTime, endTime, currentTime, buckets))
             \<in> measure (\<lambda>(startTime, endTime, currentTime, buckets). nat (endTime - currentTime))"
    using nextBucketEnd_progress[of currentTime endTime startTime] by simp
qed

declare generateBuckets_loop.simps [simp del]

definition generateBuckets :: "int \<Rightarrow> int \<Rightarrow> Bucket list" where
  "generateBuckets startTime endTime = generateBuckets_loop startTime endTime startTime []"

text \<open>
  The width of a full bucket: the step that the \<^verbatim>\<open>switch\<close> of \<^verbatim>\<open>generateBuckets\<close> adds
  for the suggested interval, one hour for \<^verbatim>\<open>'1h'\<close> and one day otherwise.
\<close>

definition bucketWidth :: "int \<Rightarrow> int \<Rightarrow> int" where
  "bucketWidth startTime endTime =
     (let interval = suggestInterval startTime endTime
      in if interval = ''1h'' then 60 * 60 * 1000
         else if interval = ''1d'' then 24 * 60 * 60 * 1000
         else 24 * 60 * 60 * 1000)"

text \<open>
  What the specification asks of a bucket sequence: \<open>contiguous a bs c\<close> says that the
  buckets \<open>bs\<close> are non-empty windows laid end to start from \<open>a\<close> to \<open>c\<close>.
\<close>

fun contiguous :: "int \<Rightarrow> Bucket list \<Rightarrow> int \<Rightarrow> bool" where
  "contiguous a [] c = (a = c)"
| "contiguous a (b # bs) c =
     (b_start b = a \<and> b_start b < b_end b \<and> contiguous (b_end b) bs c)"

section \<open>Webhook dispatcher (services/webhook.service.ts, repositories/webhook.repository.ts)\<close>

record WebhookDeliveryConfig =
  maxRetries :: nat
  retryDelays :: "nat list"
  timeout :: nat
  signatureHeader :: string
  idHeader :: string
  deliveryIdHeader :: string
  eventTypeHeader :: string

definition deliveryConfig :: WebhookDeliveryConfig where
  "deliveryConfig =
     \<lparr>maxRetries = 3, retryDelays = [1000, 5000, 15000], timeout = 10000,
      signatureHeader = ''x-webhook-signature'', idHeader = ''x-webhook-id'',
      deliveryIdHeader = ''x-delivery-id'', eventTypeHeader = ''x-event-type''\<rparr>"

text \<open>A row of the \<^verbatim>\<open>Webhook\<close> table, which is also the \<^verbatim>\<open>WebhookResponse\<close>.\<close>

record Webhook =
  wh_id :: string
  wh_name :: string
  wh_url :: string
  wh_secret :: string
  wh_events :: "string list"
  wh_headers :: "(string \<times> string) list option"
  wh_enabled :: bool
  wh_retryCount :: int
  wh_createdAt :: string
  wh_updatedAt :: string

text \<open>
  \<^verbatim>\<open>WebhookDeliveryResult\<close>; \<open>'r\<close> is the type of a response body. Absent optional
  fields are \<open>None\<close>.
\<close>

record 'r WebhookDeliveryResult =
  success :: bool
  dr_statusCode :: int
  response :: "'r option"
  dr_error :: "string option"
  deliveryId :: string
  attempt :: nat

text \<open>
  A row of the \<^verbatim>\<open>WebhookDelivery\<close> table, without the columns the store fills in
  by itself (id, createdAt, updatedAt).
\<close>

record WebhookDelivery =
  wd_webhookId :: string
  wd_eventId :: string
  wd_status :: string
  wd_response :: "string option"
  wd_error :: "string option"
  wd_retryCount :: nat

record WebhookDb =
  webhooks :: "Webhook list"
  deliveries :: "WebhookDelivery list"

text \<open>
  \<^verbatim>\<open>prisma.webhook.update({ where: { id }, data: { enabled } })\<close>. It rejects with
  P2025 when no row has the id. The schema marks \<^verbatim>\<open>updatedAt\<close> with
  \<^verbatim>\<open>@updatedAt\<close>, so the store sets it to the time \<open>now\<close> of the update.
\<close>

definition webhook_update :: "string \<Rightarrow> Webhook list \<Rightarrow> string \<Rightarrow> bool \<Rightarrow> error + Webhook list" where
  "webhook_update now rows webhookId en =
     (if \<exists>w \<in> set rows. wh_id w = webhookId
      then Inr (map (\<lambda>w. if wh_id w = webhookId
                         then w\<lparr>wh_enabled := en, wh_updatedAt := now\<rparr> else w) rows)
      else Inl (PrismaError ''P2025'' ''Record to update not found.''))"

text \<open>
  \<^verbatim>\<open>updateDeliveryStatus\<close>. \<open>stringify\<close> is \<^verbatim>\<open>JSON.stringify\<close> on response bodies;
  of an absent response it gives \<^verbatim>\<open>undefined\<close>, and the column is left empty.
  \<^verbatim>\<open>result.error || null\<close> stores no error for an absent or empty message.
\<close>

definition deliveryRow :: "('r \<Rightarrow> string) \<Rightarrow> string \<Rightarrow> 'r WebhookDeliveryResult \<Rightarrow> WebhookDelivery" where
  "deliveryRow stringify webhookId result =
     \<lparr>wd_webhookId = webhookId,
      wd_eventId = deliveryId result,
      wd_status = (if success result then ''success'' else ''failed''),
      wd_response = map_option stringify (response result),
      wd_error = (case dr_error result of
                    None \<Rightarrow> None
                  | Some m \<Rightarrow> if m = [] then None else Some m),
      wd_retryCount = attempt result\<rparr>"

definition updateDeliveryStatus ::
  "('r \<Rightarrow> string) \<Rightarrow> string \<Rightarrow> WebhookDb \<Rightarrow> string \<Rightarrow> 'r WebhookDeliveryResult
     \<Rightarrow> error + WebhookDb" where
  "updateDeliveryStatus stringify now db webhookId result =
     (case webhook_update now (webhooks db) webhookId (success result) of
        Inl e \<Rightarrow> Inl e
      | Inr rows \<Rightarrow>
          Inr \<lparr>webhooks = rows,
               deliveries = deliveries db @ [deliveryRow stringify webhookId result]\<rparr>)"

text \<open>
  The outside world of a delivery. \<open>hmacSha256Hex key msg\<close> is
  \<^verbatim>\<open>createHmac('sha256', key).update(msg).digest('hex')\<close>, \<open>jsonStringify\<close> is
  \<^verbatim>\<open>JSON.stringify\<close> on payloads and \<open>jsonStringifyResponse\<close> on response bodies;
  \<open>post n request\<close> is what \<^verbatim>\<open>axios.post\<close> settles to for the \<open>n\<close>-th attempt of
  the delivery: a response with its status and body, or an error with its message and
  the status of its response if it has one.
\<close>

record 'p HttpRequest =
  req_url :: string
  req_data :: 'p
  req_timeout :: nat
  req_headers :: "string \<rightharpoonup> string"

datatype 'r HttpOutcome = HttpResponse int 'r | HttpError string "int option"

record ('p, 'r) World =
  hmacSha256Hex :: "string \<Rightarrow> string \<Rightarrow> string"
  jsonStringify :: "'p \<Rightarrow> string"
  jsonStringifyResponse :: "'r \<Rightarrow> string"
  post :: "nat \<Rightarrow> 'p HttpRequest \<Rightarrow> 'r HttpOutcome"

definition generateSignature :: "('p, 'r) World \<Rightarrow> string \<Rightarrow> string \<Rightarrow> string" where
  "generateSignature world secret payload = hmacSha256Hex world secret payload"

text \<open>The request of one attempt: the arguments of \<^verbatim>\<open>axios.post\<close>.\<close>

definition attemptRequest ::
  "('p, 'r) World \<Rightarrow> WebhookDeliveryConfig \<Rightarrow> Webhook \<Rightarrow> string \<Rightarrow> 'p \<Rightarrow> string
     \<Rightarrow> 'p HttpRequest" where
  "attemptRequest world config webhook eventType payload dId =
     (let signature = generateSignature world (wh_secret webhook) (jsonStringify world payload)
      in \<lparr>req_url = wh_url webhook, req_data = payload, req_timeout = timeout config,
          req_headers =
            [''Content-Type'' \<mapsto> ''application/json'',
             signatureHeader config \<mapsto> signature,
             idHeader config \<mapsto> wh_id webhook,
             deliveryIdHeader config \<mapsto> dId,
             eventTypeHeader config \<mapsto> eventType]\<rparr>)"

text \<open>
  The two results \<^verbatim>\<open>deliverWebhook\<close> builds: after a response at attempt \<open>att\<close>, and
  after the loop, from \<^verbatim>\<open>lastError\<close> (its message and the status of its response,
  \<^verbatim>\<open>lastError?.response?.status || 0\<close>).
\<close>

definition successResult :: "string \<Rightarrow> nat \<Rightarrow> int \<Rightarrow> 'r \<Rightarrow> 'r WebhookDeliveryResult" where
  "successResult dId att status body =
     \<lparr>success = True, dr_statusCode = status, response = Some body, dr_error = None,
      deliveryId = dId, attempt = att\<rparr>"

definition failureResult ::
  "string \<Rightarrow> nat \<Rightarrow> (string \<times> int option) option \<Rightarrow> 'r WebhookDeliveryResult" where
  "failureResult dId att lastError =
     \<lparr>success = False,
      dr_statusCode = (case lastError of Some (msg, Some status) \<Rightarrow> status | _ \<Rightarrow> 0),
      response = None,
      dr_error = map_option fst lastError,
      deliveryId = dId, attempt = att\<rparr>"

text \<open>
  The state of the retry loop of \<^verbatim>\<open>deliverWebhook\<close>: the attempt counter, the
  message and response status of \<^verbatim>\<open>lastError\<close>, the database, and the requests sent
  so far. The body of \<^verbatim>\<open>try\<close> posts and then records the success; an error of
  either is caught and leads to the next attempt. After the loop the failure is recorded
  outside any \<^verbatim>\<open>try\<close>. Logging and the sleep between attempts change none of these
  values and are left out.
\<close>

function deliverWebhook_loop ::
  "('p, 'r) World \<Rightarrow> WebhookDeliveryConfig \<Rightarrow> string \<Rightarrow> Webhook \<Rightarrow> string \<Rightarrow> 'p \<Rightarrow> string
     \<Rightarrow> nat \<Rightarrow> (string \<times> int option) option \<Rightarrow> WebhookDb \<Rightarrow> 'p HttpRequest list
     \<Rightarrow> (error + 'r WebhookDeliveryResult) \<times> WebhookDb \<times> 'p HttpRequest list" where
  "deliverWebhook_loop world config now webhook eventType payload dId att lastError db sent =
     (if att < maxRetries config
      then (case post world (att + 1) (attemptRequest world config webhook eventType payload dId) of
              HttpResponse status body \<Rightarrow>
                (case updateDeliveryStatus (jsonStringifyResponse world) now db (wh_id webhook)
                        (successResult dId (att + 1) status body) of
                   Inr db' \<Rightarrow>
                     (Inr (successResult dId (att + 1) status body), db',
                      sent @ [attemptRequest world config webhook eventType payload dId])
                 | Inl e \<Rightarrow>
                     deliverWebhook_loop world config now webhook eventType payload dId
                       (att + 1) (Some (errorMessage e, None)) db
                       (sent @ [attemptRequest world config webhook eventType payload dId]))
            | HttpError msg status \<Rightarrow>
                deliverWebhook_loop world config now webhook eventType payload dId
                  (att + 1) (Some (msg, status)) db
                  (sent @ [attemptRequest world config webhook eventType payload dId]))
      else (case updateDeliveryStatus (jsonStringifyResponse world) now db (wh_id webhook)
                   (failureResult dId att lastError) of
              Inr db' \<Rightarrow> (Inr (failureResult dId att lastError), db', sent)
            | Inl e \<Rightarrow> (Inl e, db, sent)))"
  by pat_completeness auto
termination
  by (relation "measure (\<lambda>(world, config, now, webhook, eventType, payload, dId, att, rest).
                   maxRetries config - att)") auto

declare deliverWebhook_loop.simps [simp del]

text \<open>
  \<^verbatim>\<open>deliverWebhook\<close>; \<open>dId\<close> is the value of the one \<^verbatim>\<open>randomUUID()\<close> call, made
  before the loop.
\<close>

definition deliverWebhook ::
  "('p, 'r) World \<Rightarrow> WebhookDeliveryConfig \<Rightarrow> string \<Rightarrow> WebhookDb \<Rightarrow> Webhook \<Rightarrow> string \<Rightarrow> 'p
     \<Rightarrow> string
     \<Rightarrow> (error + 'r WebhookDeliveryResult) \<times> WebhookDb \<times> 'p HttpRequest list" where
  "deliverWebhook world config now db webhook eventType payload dId =
     deliverWebhook_loop world config now webhook eventType payload dId 0 None db []"

text \<open>
  The webhook rows after a delivery outcome \<open>en\<close> has been recorded for \<open>webhookId\<close>, and
  whether an \<^verbatim>\<open>axios.post\<close> settled with an error.
\<close>

definition recorded :: "string \<Rightarrow> Webhook list \<Rightarrow> string \<Rightarrow> bool \<Rightarrow> Webhook list" where
  "recorded now rows webhookId en =
     map (\<lambda>w. if wh_id w = webhookId then w\<lparr>wh_enabled := en, wh_updatedAt := now\<rparr> else w)
       rows"

definition isHttpError :: "'r HttpOutcome \<Rightarrow> bool" where
  "isHttpError out =
     (case out of HttpError msg status \<Rightarrow> True | HttpResponse status body \<Rightarrow> False)"

text \<open>
  \<^verbatim>\<open>findByEventType\<close> and \<^verbatim>\<open>triggerWebhooks\<close>. \<open>uuid k\<close> is the value of the
  \<open>k\<close>-th \<^verbatim>\<open>randomUUID()\<close> call: \<^verbatim>\<open>webhooks.map\<close> starts the deliveries in the
  order of the list, and each draws its delivery id as it starts. The deliveries then run
  concurrently; the model runs them one after the other in that order, which fixes the
  order of the rows they append. \<^verbatim>\<open>Promise.all\<close> gives the list of results, or the
  first error if a delivery is rejected.
\<close>

definition findByEventType :: "WebhookDb \<Rightarrow> string \<Rightarrow> bool \<Rightarrow> Webhook list" where
  "findByEventType db eventType activeOnly =
     filter (\<lambda>w. (activeOnly \<longrightarrow> wh_enabled w) \<and> eventType \<in> set (wh_events w)) (webhooks db)"

fun deliverAll ::
  "('p, 'r) World \<Rightarrow> WebhookDeliveryConfig \<Rightarrow> string \<Rightarrow> WebhookDb \<Rightarrow> (Webhook \<times> string) list
     \<Rightarrow> string \<Rightarrow> 'p
     \<Rightarrow> (error + 'r WebhookDeliveryResult) list \<times> WebhookDb \<times> 'p HttpRequest list list" where
  "deliverAll world config now db [] eventType payload = ([], db, [])"
| "deliverAll world config now db ((webhook, dId) # rest) eventType payload =
     (case deliverWebhook world config now db webhook eventType payload dId of
        (r, db', sent) \<Rightarrow>
          (case deliverAll world config now db' rest eventType payload of
             (rs, db'', sents) \<Rightarrow> (r # rs, db'', sent # sents)))"

fun Promise_all :: "(error + 'a) list \<Rightarrow> error + 'a list" where
  "Promise_all [] = Inr []"
| "Promise_all (Inl e # rs) = Inl e"
| "Promise_all (Inr v # rs) = (case Promise_all rs of Inl e \<Rightarrow> Inl e | Inr vs \<Rightarrow> Inr (v # vs))"

definition triggerWebhooks ::
  "('p, 'r) World \<Rightarrow> WebhookDeliveryConfig \<Rightarrow> string \<Rightarrow> WebhookDb \<Rightarrow> (nat \<Rightarrow> string) \<Rightarrow> string
     \<Rightarrow> 'p
     \<Rightarrow> (error + 'r WebhookDeliveryResult list) \<times> WebhookDb \<times> 'p HttpRequest list list" where
  "triggerWebhooks world config now db uuid eventType payload =
     (let webhooks = findByEventType db eventType True
      in case deliverAll world config now db
                (zip webhooks (map uuid [0..<length webhooks])) eventType payload of
           (rs, db', sents) \<Rightarrow> (Promise_all rs, db', sents))"

text \<open>
  A database with one enabled subscriber, and two worlds for it: one whose endpoint fails
  the first two attempts and answers the third, and one whose endpoint always fails.
  Their \<open>hmacSha256Hex\<close> and \<open>jsonStringify\<close> are stand-ins.
\<close>

definition hook1 :: Webhook where
  "hook1 = \<lparr>wh_id = ''123'', wh_name = ''Test Webhook'', wh_url = ''https://example.com/webhook'',
            wh_secret = ''webhook-secret-123456'', wh_events = [''event.created''],
            wh_headers = None, wh_enabled = True, wh_retryCount = 3,
            wh_createdAt = ''t0'', wh_updatedAt = ''t0''\<rparr>"

definition db1 :: WebhookDb where
  "db1 = \<lparr>webhooks = [hook1], deliveries = []\<rparr>"

definition worldThird :: "(string, string) World" where
  "worldThird =
     \<lparr>hmacSha256Hex = (\<lambda>key msg. key @ '':'' @ msg),
      jsonStringify = (\<lambda>p. p),
      jsonStringifyResponse = (\<lambda>r. r),
      post = (\<lambda>n request. if n < 3 then HttpError ''Failed to deliver'' None
                           else HttpResponse 200 ''ok'')\<rparr>"

definition worldDown :: "(string, string) World" where
  "worldDown =
     \<lparr>hmacSha256Hex = (\<lambda>key msg. key @ '':'' @ msg),
      jsonStringify = (\<lambda>p. p),
      jsonStringifyResponse = (\<lambda>r. r),
      post = (\<lambda>n request. HttpError ''Failed to deliver'' (Some 503))\<rparr>"

text \<open>
  What the retry loop, entered with attempt counter \<open>att\<close> and last error \<open>lastError\<close>,
  guarantees about its result: a success is the first response after \<open>att\<close>, at an
  attempt no later than \<open>maxRetries\<close>; a failure means every remaining attempt up to
  \<open>maxRetries\<close> ended in an error, and carries the last of these errors.
\<close>

definition loopSpec ::
  "('p, 'r) World \<Rightarrow> WebhookDeliveryConfig \<Rightarrow> 'p HttpRequest \<Rightarrow> nat
     \<Rightarrow> (string \<times> int option) option \<Rightarrow> 'r WebhookDeliveryResult \<Rightarrow> bool" where
  "loopSpec world config req att lastError res =
     (att \<le> attempt res \<and> attempt res \<le> maxRetries config
      \<and> (success res \<longrightarrow>
            att < attempt res
          \<and> post world (attempt res) req = HttpResponse (dr_statusCode res) (the (response res))
          \<and> response res \<noteq> None \<and> dr_error res = None
          \<and> (\<forall>k. att < k \<and> k < attempt res \<longrightarrow> isHttpError (post world k req)))
      \<and> (\<not> success res \<longrightarrow>
            attempt res = maxRetries config
          \<and> response res = None
          \<and> (\<forall>k. att < k \<and> k \<le> maxRetries config \<longrightarrow> isHttpError (post world k req))
          \<and> (if att < maxRetries config
              then \<exists>msg status. post world (maxRetries config) req = HttpError msg status
                     \<and> dr_error res = Some msg
                     \<and> dr_statusCode res = (case status of None \<Rightarrow> 0 | Some s \<Rightarrow> s)
              else dr_error res = map_option fst lastError
                 \<and> dr_statusCode res
                     = (case lastError of Some (msg, Some status) \<Rightarrow> status | _ \<Rightarrow> 0))))"

section \<open>Batch ingestion (services/event.service.ts, utils/validation.utils.ts)\<close>

text \<open>
  \<^verbatim>\<open>validateBatchSize\<close> parses the size with the schema
  \<^verbatim>\<open>z.number().int().min(1).max(MAX_BATCH_SIZE)\<close>; the size is the length of an array.
  A failed parse throws the validator's \<^verbatim>\<open>ZodError\<close>.
\<close>

definition MAX_BATCH_SIZE :: nat where
  "MAX_BATCH_SIZE = 1000"

definition validateBatchSize :: "nat \<Rightarrow> error + unit" where
  "validateBatchSize sz =
     (if sz < 1 then Inl (ZodError ''Number must be greater than or equal to 1'')
      else if sz > MAX_BATCH_SIZE
      then Inl (ZodError ''Number must be less than or equal to 1000'')
      else Inr ())"

text \<open>
  An element of \<^verbatim>\<open>input.events\<close>, and an \<^verbatim>\<open>Event\<close>: the input's fields with the
  identity and the times of the stored row, and with the two fields that only the
  placeholder of a failed item has. \<open>'d\<close> is the type of the structured payloads. A
  missing or empty timestamp is falsy.
\<close>

record 'd EventInput =
  ev_timestamp :: "string option"
  ev_eventType :: string
  ev_source :: string
  ev_data :: 'd
  ev_userId :: "string option"
  ev_sessionId :: "string option"
  ev_duration :: "int option"
  ev_priority :: int
  ev_status :: string
  ev_tags :: "string list"
  ev_metadata :: "'d option"

record 'd Event = "'d EventInput" +
  ev_id :: string
  ev_createdAt :: string
  ev_updatedAt :: string
  ev_error :: "string option"
  ev_severity :: "string option"

text \<open>
  What the world outside the service does for one item of a batch: the value of
  \<^verbatim>\<open>new Date().toISOString()\<close> when the timestamp is defaulted, what
  \<^verbatim>\<open>eventRepository.create\<close> settles to for the argument it is given (a thrown value
  or the stored event), and the two clock readings of the \<^verbatim>\<open>catch\<close> block. A run
  is described by the function \<open>env\<close> from the position of an item in the batch to these
  answers, so the items are processed together with their positions.
\<close>

record 'd ItemEnv =
  nowAtCreate :: string
  createOutcome :: "'d EventInput \<Rightarrow> thrown + 'd Event"
  nowCreatedAt :: string
  nowUpdatedAt :: string

definition falsy :: "string option \<Rightarrow> bool" where
  "falsy v = (case v of None \<Rightarrow> True | Some s \<Rightarrow> s = [])"

text \<open>The argument of \<^verbatim>\<open>eventRepository.create\<close>.\<close>

definition createArg :: "'d ItemEnv \<Rightarrow> 'd EventInput \<Rightarrow> 'd EventInput" where
  "createArg ienv event =
     event\<lparr>ev_timestamp :=
              (if falsy (ev_timestamp event) then Some (nowAtCreate ienv)
               else ev_timestamp event)\<rparr>"

text \<open>The placeholder the \<^verbatim>\<open>catch\<close> block returns for an item whose create threw.\<close>

definition failedEvent :: "'d ItemEnv \<Rightarrow> 'd EventInput \<Rightarrow> thrown \<Rightarrow> 'd Event" where
  "failedEvent ienv event err =
     EventInput.extend (event\<lparr>ev_status := ''failed''\<rparr>)
       (Event.fields ''''
          (nowCreatedAt ienv) (nowUpdatedAt ienv)
          (Some (case err of ThrownError e \<Rightarrow> errorMessage e | ThrownOther \<Rightarrow> ''Unknown error''))
          (Some ''error''))"

text \<open>
  The callback of \<^verbatim>\<open>chunk.map\<close>, for the item at position \<open>k\<close>: its result, paired
  with the argument of its create call.
\<close>

definition processItem ::
  "(nat \<Rightarrow> 'd ItemEnv) \<Rightarrow> nat \<times> 'd EventInput \<Rightarrow> 'd Event \<times> 'd EventInput" where
  "processItem env item =
     (case item of (k, event) \<Rightarrow>
        (case createOutcome (env k) (createArg (env k) event) of
           Inr created \<Rightarrow> (created, createArg (env k) event)
         | Inl err \<Rightarrow> (failedEvent (env k) event err, createArg (env k) event)))"

text \<open>\<^verbatim>\<open>xs.slice(a, b)\<close> for \<open>0 \<le> a \<le> b\<close>.\<close>

definition slice :: "'a list \<Rightarrow> nat \<Rightarrow> nat \<Rightarrow> 'a list" where
  "slice xs a b = take (b - a) (drop a xs)"

text \<open>
  The two \<^verbatim>\<open>for\<close> loops of \<^verbatim>\<open>createBatchEvents\<close>. The constants
  \<^verbatim>\<open>EVENT_BATCH_CHUNK_SIZE\<close> and \<^verbatim>\<open>EVENT_BATCH_MAX_CONCURRENT\<close> come from
  \<^verbatim>\<open>config/constants\<close> and are parameters here. A loop whose step is zero never
  ends: the result \<open>None\<close> stands for a call that does not return.
\<close>

partial_function (option) chunk_loop ::
  "nat \<Rightarrow> 'a list \<Rightarrow> nat \<Rightarrow> 'a list list \<Rightarrow> 'a list list option" where
  "chunk_loop CHUNK_SIZE events i chunks =
     (if i < length events
      then chunk_loop CHUNK_SIZE events (i + CHUNK_SIZE)
             (chunks @ [slice events i (i + CHUNK_SIZE)])
      else Some chunks)"

partial_function (option) wave_loop ::
  "nat \<Rightarrow> ('a \<Rightarrow> 'b) \<Rightarrow> 'a list list \<Rightarrow> nat \<Rightarrow> 'b list \<Rightarrow> 'b list option" where
  "wave_loop MAX_CONCURRENT process chunks i results =
     (if i < length chunks
      then wave_loop MAX_CONCURRENT process chunks (i + MAX_CONCURRENT)
             (results @ concat (map (map process) (slice chunks i (i + MAX_CONCURRENT))))
      else Some results)"

text \<open>
  A promise is given by the time, in milliseconds after its creation, at which it settles
  and by what it settles to. \<^verbatim>\<open>.catch(handler)\<close> with a handler that only logs turns
  a rejection into a fulfilment with \<^verbatim>\<open>undefined\<close>. \<^verbatim>\<open>await Promise.all(ps)\<close>
  resumes when the last promise is fulfilled, or throws at the first rejection.
\<close>

datatype 'a settled = Fulfilled 'a | Rejected thrown

record 'a promise =
  settledAfter :: nat
  settled :: "'a settled"

definition catch_log :: "'a promise \<Rightarrow> 'a option promise" where
  "catch_log p =
     \<lparr>settledAfter = settledAfter p,
      settled = Fulfilled (case settled p of Fulfilled v \<Rightarrow> Some v | Rejected e \<Rightarrow> None)\<rparr>"

fun await_all :: "'a promise list \<Rightarrow> nat \<times> (thrown + 'a list)" where
  "await_all [] = (0, Inr [])"
| "await_all (p # ps) =
     (case (settled p, await_all ps) of
        (Fulfilled v, (t, Inr vs)) \<Rightarrow> (max (settledAfter p) t, Inr (v # vs))
      | (Fulfilled v, (t, Inl e)) \<Rightarrow> (t, Inl e)
      | (Rejected e, (t, Inr vs)) \<Rightarrow> (settledAfter p, Inl e)
      | (Rejected e, (t, Inl e')) \<Rightarrow>
          (if settledAfter p \<le> t then (settledAfter p, Inl e) else (t, Inl e')))"

text \<open>
  What a call of the service shows to the outside: what its promise settles to, the
  arguments of the create calls it made, the events it passed to
  \<^verbatim>\<open>triggerWebhooks('event.created', event)\<close>, and for how long it waited for webhook
  promises before it settled.
\<close>

record 'd ServiceRun =
  returned :: "thrown + 'd Event list"
  createCalls :: "'d EventInput list"
  triggered :: "'d Event list"
  waited :: nat

text \<open>The outer \<^verbatim>\<open>catch\<close> of \<^verbatim>\<open>createBatchEvents\<close>.\<close>

definition batchCatch :: "thrown \<Rightarrow> thrown" where
  "batchCatch err =
     (case err of
        ThrownError (PrismaError code msg) \<Rightarrow> ThrownError (handlePrismaError code)
      | ThrownError e \<Rightarrow>
          ThrownError (AppError INTERNAL
            (''Failed to create batch events: '' @ errorMessage e) 500)
      | ThrownOther \<Rightarrow>
          ThrownError (AppError INTERNAL ''Failed to create batch events: Unknown error'' 500))"

text \<open>
  \<^verbatim>\<open>createBatchEvents\<close>. \<open>trigger event\<close> is the promise that
  \<^verbatim>\<open>webhookService.triggerWebhooks('event.created', event)\<close> returns.
\<close>

definition createBatchEvents ::
  "nat \<Rightarrow> nat \<Rightarrow> (nat \<Rightarrow> 'd ItemEnv) \<Rightarrow> ('d Event \<Rightarrow> 't promise) \<Rightarrow> 'd EventInput list
     \<Rightarrow> 'd ServiceRun option" where
  "createBatchEvents CHUNK_SIZE MAX_CONCURRENT env trigger events =
     (case validateBatchSize (length events) of
        Inl e \<Rightarrow>
          Some \<lparr>returned = Inl (ThrownError e), createCalls = [], triggered = [], waited = 0\<rparr>
      | Inr _ \<Rightarrow>
          (case chunk_loop CHUNK_SIZE (zip [0..<length events] events) 0 [] of
             None \<Rightarrow> None
           | Some chunks \<Rightarrow>
               (case wave_loop MAX_CONCURRENT (processItem env) chunks 0 [] of
                  None \<Rightarrow> None
                | Some processed \<Rightarrow>
                    (let results = map fst processed;
                         successfulEvents = filter (\<lambda>event. ev_status event \<noteq> ''failed'') results
                     in case await_all (map (\<lambda>event. catch_log (trigger event)) successfulEvents) of
                          (t, Inr _) \<Rightarrow>
                            Some \<lparr>returned = Inr results, createCalls = map snd processed,
                                  triggered = successfulEvents, waited = t\<rparr>
                        | (t, Inl err) \<Rightarrow>
                            Some \<lparr>returned = Inl (batchCatch err),
                                  createCalls = map snd processed,
                                  triggered = successfulEvents, waited = t\<rparr>))))"

text \<open>
  \<^verbatim>\<open>createEvent\<close>, the single-event path: it starts the webhook trigger for a stored
  event with a non-empty id and returns without awaiting it. Its result, one event, is
  given as a list of one element.
\<close>

definition createEvent ::
  "'d ItemEnv \<Rightarrow> ('d Event \<Rightarrow> 't promise) \<Rightarrow> 'd EventInput \<Rightarrow> 'd ServiceRun" where
  "createEvent ienv trigger input =
     (case createOutcome ienv (createArg ienv input) of
        Inr event \<Rightarrow>
          \<lparr>returned = Inr [event], createCalls = [createArg ienv input],
           triggered = (if ev_id event \<noteq> [] then [event] else []), waited = 0\<rparr>
      | Inl (ThrownError (PrismaError code msg)) \<Rightarrow>
          \<lparr>returned = Inl (ThrownError (handlePrismaError code)),
           createCalls = [createArg ienv input], triggered = [], waited = 0\<rparr>
      | Inl err \<Rightarrow>
          \<lparr>returned = Inl err, createCalls = [createArg ienv input], triggered = [],
           waited = 0\<rparr>)"

text \<open>
  Sample data: an event input; a world that stores it; a world whose create throws; and a
  webhook trigger whose promise settles after 36 seconds, the time three attempts that
  run into the 10 second timeout take with the backoff of 1 and 5 seconds between them.
\<close>

definition event1 :: "string EventInput" where
  "event1 = \<lparr>ev_timestamp = Some ''2023-01-01T00:00:00Z'', ev_eventType = ''test'',
             ev_source = ''src'', ev_data = ''{}'', ev_userId = None, ev_sessionId = None,
             ev_duration = None, ev_priority = 1, ev_status = ''pending'', ev_tags = [],
             ev_metadata = None\<rparr>"

definition envStored :: "string ItemEnv" where
  "envStored =
     \<lparr>nowAtCreate = ''2023-01-02T00:00:00.000Z'',
      createOutcome = (\<lambda>input. Inr (EventInput.extend input
                         (Event.fields ''evt-1'' ''2023-01-02T00:00:00.001Z''
                            ''2023-01-02T00:00:00.001Z'' None None))),
      nowCreatedAt = ''2023-01-02T00:00:00.002Z'',
      nowUpdatedAt = ''2023-01-02T00:00:00.002Z''\<rparr>"

definition envThrows :: "string ItemEnv" where
  "envThrows = envStored\<lparr>createOutcome := (\<lambda>input. Inl (ThrownError (Error ''fail'')))\<rparr>"

definition slowTrigger :: "string Event \<Rightarrow> unit promise" where
  "slowTrigger event = \<lparr>settledAfter = 36000, settled = Fulfilled ()\<rparr>"

definition envFirstThrows :: "nat \<Rightarrow> string ItemEnv" where
  "envFirstThrows k = (if k = 0 then envThrows else envStored)"

section \<open>Rate limiter: the fixed window\<close>

lemma getOrCreate_fresh:
  assumes "findUnique tbl key endpoint = None \<or>
           (\<exists>r. findUnique tbl key endpoint = Some r \<and> rl_resetAt r < now)"
  shows "\<exists>row. getOrCreateRateLimit tbl newId key endpoint now resetAt =
            Inr (row, tbl((key, endpoint) \<mapsto> row)) \<and> rl_count row = 1 \<and> rl_resetAt row = resetAt"
  using assms
  by (auto simp: getOrCreateRateLimit_def upsert_def findUnique_def Let_def split: option.splits)

lemma getOrCreate_incr:
  assumes "findUnique tbl key endpoint = Some r" "now \<le> rl_resetAt r"
  shows "getOrCreateRateLimit tbl newId key endpoint now resetAt =
           Inr (r\<lparr>rl_count := rl_count r + 1\<rparr>,
                tbl((key, endpoint) \<mapsto> r\<lparr>rl_count := rl_count r + 1\<rparr>))"
  using assms
  by (auto simp: getOrCreateRateLimit_def update_increment_def findUnique_def Let_def
           split: option.splits)

lemma getOrCreate_cases:
  "(\<exists>row. getOrCreateRateLimit tbl newId key endpoint now resetAt =
            Inr (row, tbl((key, endpoint) \<mapsto> row)))"
proof (cases "findUnique tbl key endpoint")
  case None
  then show ?thesis using getOrCreate_fresh[of tbl key endpoint now newId resetAt] by blast
next
  case (Some r)
  show ?thesis
  proof (cases "rl_resetAt r < now")
    case True
    with Some show ?thesis using getOrCreate_fresh[of tbl key endpoint now newId resetAt] by blast
  next
    case False
    with Some show ?thesis using getOrCreate_incr[of tbl key endpoint r now newId resetAt] by simp
  qed
qed

text \<open>
  A configuration that the constructor accepts has a positive limit and window. Once the
  count has reached the limit, the next request of the window is rejected with
  \<open>remaining = 0\<close>.
\<close>

lemma validateAndMergeConfig_max:
  "validateAndMergeConfig config = Inr merged \<Longrightarrow> 0 < max_cfg merged \<and> 0 < windowMs merged"
  by (auto simp: validateAndMergeConfig_def orElse_def DEFAULT_CONFIG_def split: if_splits option.splits)

lemma checkRateLimit_over_limit:
  assumes "0 < max_cfg config" "findUnique tbl key endpoint = Some r" "now \<le> rl_resetAt r"
    and "rl_count r = max_cfg config"
  shows "fst (checkRateLimit config tbl newId key endpoint now)
           = Inr \<lparr>isLimited = True,
                  limitInfo = \<lparr>limit = max_cfg config, remaining = 0,
                               reset = rl_resetAt r div 1000\<rparr>\<rparr>"
  using assms getOrCreate_incr[OF assms(2,3), of newId "now + windowMs config"]
  by (simp add: checkRateLimit_def calculateLimitInfo_def Let_def)

lemma checkRateLimit_positive_limit:
  assumes "0 < max_cfg config"
  shows "(findUnique tbl key endpoint = None \<or>
          (\<exists>r. findUnique tbl key endpoint = Some r \<and> rl_resetAt r < now) \<longrightarrow>
          (\<exists>row. checkRateLimit config tbl newId key endpoint now =
                   (Inr \<lparr>isLimited = False,
                         limitInfo = \<lparr>limit = max_cfg config, remaining = max_cfg config - 1,
                                      reset = (now + windowMs config) div 1000\<rparr>\<rparr>,
                    tbl((key, endpoint) \<mapsto> row))
               \<and> rl_count row = 1 \<and> rl_resetAt row = now + windowMs config))
       \<and> (\<forall>r. findUnique tbl key endpoint = Some r \<and> now \<le> rl_resetAt r \<longrightarrow>
              checkRateLimit config tbl newId key endpoint now =
                (Inr \<lparr>isLimited = (\<not> rl_count r + 1 \<le> max_cfg config),
                      limitInfo = \<lparr>limit = max_cfg config,
                                   remaining = max 0 (max_cfg config - (rl_count r + 1)),
                                   reset = rl_resetAt r div 1000\<rparr>\<rparr>,
                 tbl((key, endpoint) \<mapsto> r\<lparr>rl_count := rl_count r + 1\<rparr>)))
       \<and> (\<forall>res. fst (checkRateLimit config tbl newId key endpoint now) = Inr res \<longrightarrow>
              0 \<le> remaining (limitInfo res))"
proof (intro conjI impI allI)
  assume h: "findUnique tbl key endpoint = None \<or>
          (\<exists>r. findUnique tbl key endpoint = Some r \<and> rl_resetAt r < now)"
  from getOrCreate_fresh[OF h, of newId "now + windowMs config"]
  obtain row where r: "getOrCreateRateLimit tbl newId key endpoint now (now + windowMs config) =
            Inr (row, tbl((key, endpoint) \<mapsto> row))" "rl_count row = 1"
            "rl_resetAt row = now + windowMs config" by blast
  have "checkRateLimit config tbl newId key endpoint now =
                   (Inr \<lparr>isLimited = False,
                         limitInfo = \<lparr>limit = max_cfg config, remaining = max_cfg config - 1,
                                      reset = (now + windowMs config) div 1000\<rparr>\<rparr>,
                    tbl((key, endpoint) \<mapsto> row))"
    using r assms by (simp add: checkRateLimit_def calculateLimitInfo_def Let_def)
  with r show "\<exists>row. checkRateLimit config tbl newId key endpoint now =
                   (Inr \<lparr>isLimited = False,
                         limitInfo = \<lparr>limit = max_cfg config, remaining = max_cfg config - 1,
                                      reset = (now + windowMs config) div 1000\<rparr>\<rparr>,
                    tbl((key, endpoint) \<mapsto> row))
               \<and> rl_count row = 1 \<and> rl_resetAt row = now + windowMs config" by blast
next
  fix r :: RateLimit
  assume h: "findUnique tbl key endpoint = Some r \<and> now \<le> rl_resetAt r"
  then have g: "getOrCreateRateLimit tbl newId key endpoint now (now + windowMs config) =
            Inr (r\<lparr>rl_count := rl_count r + 1\<rparr>,
                 tbl((key, endpoint) \<mapsto> r\<lparr>rl_count := rl_count r + 1\<rparr>))"
    by (simp add: getOrCreate_incr)
  show "checkRateLimit config tbl newId key endpoint now =
                (Inr \<lparr>isLimited = (\<not> rl_count r + 1 \<le> max_cfg config),
                      limitInfo = \<lparr>limit = max_cfg config,
                                   remaining = max 0 (max_cfg config - (rl_count r + 1)),
                                   reset = rl_resetAt r div 1000\<rparr>\<rparr>,
                 tbl((key, endpoint) \<mapsto> r\<lparr>rl_count := rl_count r + 1\<rparr>))"
    using g by (auto simp add: checkRateLimit_def calculateLimitInfo_def Let_def)
next
  fix res
  assume a: "fst (checkRateLimit config tbl newId key endpoint now) = Inr res"
  obtain row where "getOrCreateRateLimit tbl newId key endpoint now (now + windowMs config) =
            Inr (row, tbl((key, endpoint) \<mapsto> row))"
    using getOrCreate_cases by blast
  with a have "res = calculateLimitInfo config (rl_count row) (rl_resetAt row)"
    by (simp add: checkRateLimit_def Let_def)
  then show "0 \<le> remaining (limitInfo res)"
    by (simp add: calculateLimitInfo_def Let_def)
qed

text \<open>
  Claim C1, as amended. For every service the constructor builds, \<open>checkRateLimit\<close> is a
  fixed-window counter whose window is still open at the instant \<open>windowResetAt\<close> itself:
  \<^item> when there is no row for (key, endpoint), or \<open>now\<close> is strictly later than the row's
    \<open>resetAt\<close>, the row is created or reset with \<open>count = 1\<close> and
    \<open>resetAt = now + windowMs\<close>, and the request is allowed with \<open>remaining = max - 1\<close>;
  \<^item> otherwise (\<open>now \<le> resetAt\<close>) the count is incremented, also for a request that is
    rejected, the window end is kept, the request is allowed iff the incremented count is
    at most \<open>max\<close>, and \<open>remaining = max(0, max - count)\<close>;
  \<^item> the reported \<open>remaining\<close> is never negative.
\<close>

theorem checkRateLimit_fixed_window:
  assumes "validateAndMergeConfig partial = Inr config"
  shows "(findUnique tbl key endpoint = None \<or>
          (\<exists>r. findUnique tbl key endpoint = Some r \<and> rl_resetAt r < now) \<longrightarrow>
          (\<exists>row. checkRateLimit config tbl newId key endpoint now =
                   (Inr \<lparr>isLimited = False,
                         limitInfo = \<lparr>limit = max_cfg config, remaining = max_cfg config - 1,
                                      reset = (now + windowMs config) div 1000\<rparr>\<rparr>,
                    tbl((key, endpoint) \<mapsto> row))
               \<and> rl_count row = 1 \<and> rl_resetAt row = now + windowMs config))
       \<and> (\<forall>r. findUnique tbl key endpoint = Some r \<and> now \<le> rl_resetAt r \<longrightarrow>
              checkRateLimit config tbl newId key endpoint now =
                (Inr \<lparr>isLimited = (\<not> rl_count r + 1 \<le> max_cfg config),
                      limitInfo = \<lparr>limit = max_cfg config,
                                   remaining = max 0 (max_cfg config - (rl_count r + 1)),
                                   reset = rl_resetAt r div 1000\<rparr>\<rparr>,
                 tbl((key, endpoint) \<mapsto> r\<lparr>rl_count := rl_count r + 1\<rparr>)))
       \<and> (\<forall>res. fst (checkRateLimit config tbl newId key endpoint now) = Inr res \<longrightarrow>
              0 \<le> remaining (limitInfo res))"
  using checkRateLimit_positive_limit[of config tbl key endpoint now newId]
        validateAndMergeConfig_max[OF assms]
  by blast

theorem checkRateLimit_fixed_window_witness:
  "validateAndMergeConfig noOverrides = Inr DEFAULT_CONFIG
   \<and> fst (checkRateLimit DEFAULT_CONFIG Map.empty ''1'' ''user123'' ''api:events'' 5000)
       = Inr \<lparr>isLimited = False, limitInfo = \<lparr>limit = 100, remaining = 99, reset = 65\<rparr>\<rparr>
   \<and> fst (checkRateLimit DEFAULT_CONFIG boundary_tbl ''2'' ''user123'' ''api:events'' 1000)
       = Inr \<lparr>isLimited = False, limitInfo = \<lparr>limit = 100, remaining = 94, reset = 1\<rparr>\<rparr>"
proof -
  have h: "validateAndMergeConfig noOverrides = Inr DEFAULT_CONFIG"
    by (simp add: validateAndMergeConfig_def noOverrides_def orElse_def)
  have f: "findUnique boundary_tbl ''user123'' ''api:events'' = Some boundary_row"
    by (simp add: findUnique_def boundary_tbl_def)
  have e: "findUnique Map.empty ''user123'' ''api:events'' = None" by (simp add: findUnique_def)
  note w1 = checkRateLimit_fixed_window
              [OF h, of Map.empty "''user123''" "''api:events''" 5000 "''1''"]
  note w2 = checkRateLimit_fixed_window
              [OF h, of boundary_tbl "''user123''" "''api:events''" 1000 "''2''"]
  from w1 e
  have a: "fst (checkRateLimit DEFAULT_CONFIG Map.empty ''1'' ''user123'' ''api:events'' 5000)
       = Inr \<lparr>isLimited = False, limitInfo = \<lparr>limit = 100, remaining = 99, reset = 65\<rparr>\<rparr>"
    by (auto simp: DEFAULT_CONFIG_def)
  from w2 f
  have b: "fst (checkRateLimit DEFAULT_CONFIG boundary_tbl ''2'' ''user123'' ''api:events'' 1000)
       = Inr \<lparr>isLimited = False, limitInfo = \<lparr>limit = 100, remaining = 94, reset = 1\<rparr>\<rparr>"
    by (auto simp: DEFAULT_CONFIG_def boundary_row_def)
  from h a b show ?thesis by blast
qed

text \<open>
  The claim as written resets the window as soon as \<open>now \<ge> windowResetAt\<close>. At
  \<open>now = windowResetAt = 1000\<close> the service increments instead: the row keeps its window
  end and its count goes from 5 to 6, and \<open>remaining\<close> is 94, not \<open>max - 1 = 99\<close>.
\<close>

theorem checkRateLimit_boundary_counterexample:
  "rl_resetAt boundary_row \<le> 1000
   \<and> findUnique boundary_tbl ''user123'' ''api:events'' = Some boundary_row
   \<and> findUnique (snd (checkRateLimit DEFAULT_CONFIG boundary_tbl ''2'' ''user123'' ''api:events'' 1000))
        ''user123'' ''api:events''
      = Some (boundary_row\<lparr>rl_count := 6\<rparr>)
   \<and> rl_count (boundary_row\<lparr>rl_count := 6\<rparr>) \<noteq> 1
   \<and> rl_resetAt (boundary_row\<lparr>rl_count := 6\<rparr>) \<noteq> 1000 + windowMs DEFAULT_CONFIG
   \<and> remaining (limitInfo (projr (fst
        (checkRateLimit DEFAULT_CONFIG boundary_tbl ''2'' ''user123'' ''api:events'' 1000))))
      \<noteq> max_cfg DEFAULT_CONFIG - 1"
  by (simp add: boundary_row_def boundary_tbl_def findUnique_def checkRateLimit_def
        getOrCreateRateLimit_def update_increment_def DEFAULT_CONFIG_def
        calculateLimitInfo_def Let_def)

section \<open>Aggregation planner: validation\<close>

text \<open>
  Claim C7. For every interval of the supported set and every start and end time,
  \<open>validateTimeRangeForInterval\<close> and \<open>aggregate\<close> reject with an \<open>AppError\<close> of type
  \<open>VALIDATION\<close> (status 400) when \<open>end \<le> start\<close>, which is checked first, and with an
  \<open>AppError\<close> of type \<open>VALIDATION\<close> when \<open>end - start\<close> exceeds the interval's
  \<open>maxTimeRange\<close>; \<open>aggregate\<close> returns the view name of the interval's configuration
  exactly when both checks pass. The configuration resolved for the interval carries the
  view name and the Postgres interval that \<open>getViewName\<close> and \<open>getPostgresInterval\<close>
  return.
\<close>

theorem aggregate_validation:
  fixes query :: "'a AggregationQuery_scheme"
  assumes "q_interval query \<in> {''1m'', ''5m'', ''15m'', ''1h'', ''1d''}"
  shows "\<exists>config. map_of INTERVAL_CONFIGS (q_interval query) = Some config
      \<and> 0 < maxTimeRange config
      \<and> validateTimeRangeForInterval (q_interval query) (q_startTime query) (q_endTime query) =
          (if q_endTime query \<le> q_startTime query
           then Inl (AppError VALIDATION ''End time must be after start time'' 400)
           else if q_endTime query - q_startTime query > maxTimeRange config
           then Inl (AppError VALIDATION
                      (''Time range too large for '' @ q_interval query
                         @ '' interval. Maximum range is ''
                         @ showNat (nat (maxTimeRange config div 86400000)) @ '' days.'') 400)
           else Inr ())
      \<and> aggregate query =
          (if q_endTime query \<le> q_startTime query
           then Inl (AppError VALIDATION ''End time must be after start time'' 400)
           else if q_endTime query - q_startTime query > maxTimeRange config
           then Inl (AppError VALIDATION
                      (''Time range too large for '' @ q_interval query
                         @ '' interval. Maximum range is ''
                         @ showNat (nat (maxTimeRange config div 86400000)) @ '' days.'') 400)
           else Inr \<lparr>agg_interval = q_interval query, agg_viewName = viewName config,
                     agg_data = []\<rparr>)
      \<and> getViewName (q_interval query) = Inr (viewName config)
      \<and> getPostgresInterval (q_interval query) = Inr (pgInterval config)"
proof -
  from assms obtain config where m: "map_of INTERVAL_CONFIGS (q_interval query) = Some config"
    and p: "0 < maxTimeRange config"
    by (auto simp: INTERVAL_CONFIGS_def)
  then have c: "getConfig (q_interval query) = Inr config"
    by (simp add: getConfig_def)
  have v: "validateTimeRangeForInterval (q_interval query) (q_startTime query) (q_endTime query) =
          (if q_endTime query \<le> q_startTime query
           then Inl (AppError VALIDATION ''End time must be after start time'' 400)
           else if q_endTime query - q_startTime query > maxTimeRange config
           then Inl (AppError VALIDATION
                      (''Time range too large for '' @ q_interval query
                         @ '' interval. Maximum range is ''
                         @ showNat (nat (maxTimeRange config div 86400000)) @ '' days.'') 400)
           else Inr ())"
    using c by (simp add: validateTimeRangeForInterval_def Let_def)
  have a: "aggregate query =
          (if q_endTime query \<le> q_startTime query
           then Inl (AppError VALIDATION ''End time must be after start time'' 400)
           else if q_endTime query - q_startTime query > maxTimeRange config
           then Inl (AppError VALIDATION
                      (''Time range too large for '' @ q_interval query
                         @ '' interval. Maximum range is ''
                         @ showNat (nat (maxTimeRange config div 86400000)) @ '' days.'') 400)
           else Inr \<lparr>agg_interval = q_interval query, agg_viewName = viewName config,
                     agg_data = []\<rparr>)"
    unfolding aggregate_def v using c by simp
  have g: "getViewName (q_interval query) = Inr (viewName config)"
          "getPostgresInterval (q_interval query) = Inr (pgInterval config)"
    using c by (simp_all add: getViewName_def getPostgresInterval_def)
  from m p v a g show ?thesis by blast
qed

theorem aggregate_validation_witness:
  "''1m'' \<in> {''1m'', ''5m'', ''15m'', ''1h'', ''1d''}
   \<and> aggregate \<lparr>q_startTime = 0, q_endTime = 86400001, q_interval = ''1m''\<rparr>
       = Inl (AppError VALIDATION
               ''Time range too large for 1m interval. Maximum range is 1 days.'' 400)
   \<and> aggregate \<lparr>q_startTime = 7, q_endTime = 7, q_interval = ''1m''\<rparr>
       = Inl (AppError VALIDATION ''End time must be after start time'' 400)
   \<and> aggregate \<lparr>q_startTime = 0, q_endTime = 86400000, q_interval = ''1m''\<rparr>
       = Inr \<lparr>agg_interval = ''1m'', agg_viewName = ''events_1m'', agg_data = []\<rparr>"
proof -
  have h: "''1m'' \<in> {''1m'', ''5m'', ''15m'', ''1h'', ''1d''}" by simp
  have m: "map_of INTERVAL_CONFIGS ''1m''
             = Some \<lparr>viewName = ''events_1m'', pgInterval = ''1 minute'',
                      maxTimeRange = 86400000\<rparr>"
    by (simp add: INTERVAL_CONFIGS_def)
  have s: "showNat (Suc 0) = ''1''" by (simp add: showNat.simps)
  have a: "aggregate \<lparr>q_startTime = 0, q_endTime = 86400001, q_interval = ''1m''\<rparr>
       = Inl (AppError VALIDATION
               ''Time range too large for 1m interval. Maximum range is 1 days.'' 400)"
    using aggregate_validation
            [of "\<lparr>q_startTime = 0, q_endTime = 86400001, q_interval = ''1m''\<rparr>"] m s
    by simp
  have b: "aggregate \<lparr>q_startTime = 7, q_endTime = 7, q_interval = ''1m''\<rparr>
       = Inl (AppError VALIDATION ''End time must be after start time'' 400)"
    using aggregate_validation
            [of "\<lparr>q_startTime = 7, q_endTime = 7, q_interval = ''1m''\<rparr>"] m
    by simp
  have c: "aggregate \<lparr>q_startTime = 0, q_endTime = 86400000, q_interval = ''1m''\<rparr>
       = Inr \<lparr>agg_interval = ''1m'', agg_viewName = ''events_1m'', agg_data = []\<rparr>"
    using aggregate_validation
            [of "\<lparr>q_startTime = 0, q_endTime = 86400000, q_interval = ''1m''\<rparr>"] m
    by simp
  from h a b c show ?thesis by blast
qed

section \<open>Aggregation planner: bucket generation\<close>

lemma contiguous_append:
  "contiguous a (xs @ ys) c = (\<exists>m. contiguous a xs m \<and> contiguous m ys c)"
  by (induction xs arbitrary: a) auto

lemma nextBucketEnd_le: "c < e \<Longrightarrow> nextBucketEnd s e c \<le> e"
  by (simp add: nextBucketEnd_def Let_def)

lemma loop_contiguous:
  "contiguous a acc c \<Longrightarrow> c \<le> e \<Longrightarrow> contiguous a (generateBuckets_loop s e c acc) e"
proof (induction s e c acc rule: generateBuckets_loop.induct)
  case (1 s e c acc)
  show ?case
  proof (cases "c < e")
    case True
    let ?n = "nextBucketEnd s e c"
    let ?b = "\<lparr>b_start = c, b_end = ?n\<rparr>"
    have "contiguous a (acc @ [?b]) ?n"
      using "1.prems"(1) nextBucketEnd_progress[OF True, of s]
      by (auto simp: contiguous_append)
    then have "contiguous a (generateBuckets_loop s e ?n (acc @ [?b])) e"
      using "1.IH"[OF True] nextBucketEnd_le[OF True, of s] by blast
    then show ?thesis using True by (subst generateBuckets_loop.simps) simp
  next
    case False
    with "1.prems" have "c = e" by simp
    then show ?thesis using "1.prems"(1) by (subst generateBuckets_loop.simps) simp
  qed
qed

lemma contiguous_bounds:
  "contiguous a bs c \<Longrightarrow> a \<le> c \<and> (\<forall>b \<in> set bs. a \<le> b_start b \<and> b_start b < b_end b \<and> b_end b \<le> c)"
  by (induction bs arbitrary: a) force+

lemma contiguous_hd_last:
  "contiguous a bs c \<Longrightarrow> bs \<noteq> [] \<Longrightarrow> b_start (hd bs) = a \<and> b_end (last bs) = c"
  by (induction bs arbitrary: a) (auto split: if_splits)

lemma contiguous_nth:
  "contiguous a bs c \<Longrightarrow> Suc i < length bs \<Longrightarrow> b_end (bs ! i) = b_start (bs ! Suc i)"
proof (induction bs arbitrary: a i)
  case Nil then show ?case by simp
next
  case (Cons b bs)
  show ?case
  proof (cases i)
    case 0
    with Cons.prems obtain b' bs' where "bs = b' # bs'" by (cases bs) auto
    with Cons.prems 0 show ?thesis by simp
  next
    case (Suc k)
    from Cons.prems have t: "contiguous (b_end b) bs c" by simp
    from Cons.IH[OF t, of k] Cons.prems Suc show ?thesis by simp
  qed
qed

lemma contiguous_disjoint:
  "contiguous a bs c \<Longrightarrow> i < j \<Longrightarrow> j < length bs \<Longrightarrow> b_end (bs ! i) \<le> b_start (bs ! j)"
proof (induction bs arbitrary: a i j)
  case Nil then show ?case by simp
next
  case (Cons b bs)
  from Cons.prems obtain k where j: "j = Suc k" by (cases j) auto
  from Cons.prems have t: "contiguous (b_end b) bs c" by simp
  show ?case
  proof (cases i)
    case 0
    have "bs ! k \<in> set bs" using Cons.prems j by simp
    with contiguous_bounds[OF t] have "b_end b \<le> b_start (bs ! k)" by blast
    with 0 j show ?thesis by simp
  next
    case (Suc i')
    with Cons.IH[OF t, of i' k] Cons.prems j show ?thesis by simp
  qed
qed

lemma contiguous_union:
  "contiguous a bs c \<Longrightarrow> (\<Union>b \<in> set bs. {b_start b ..< b_end b}) = {a ..< c}"
proof (induction bs arbitrary: a)
  case Nil then show ?case by simp
next
  case (Cons b bs)
  then have t: "contiguous (b_end b) bs c" and s: "b_start b = a" "a < b_end b" by auto
  from contiguous_bounds[OF t] have "b_end b \<le> c" by simp
  with Cons.IH[OF t] s show ?case by auto
qed

lemma loop_single:
  assumes "s < e" "e - s \<le> 60 * 60 * 1000"
  shows "generateBuckets_loop s e s [] = [\<lparr>b_start = s, b_end = e\<rparr>]"
proof -
  have n: "nextBucketEnd s e s = e"
    using assms by (auto simp: nextBucketEnd_def suggestInterval_def addLocalHour_def Let_def)
  have "generateBuckets_loop s e s [] = generateBuckets_loop s e e [\<lparr>b_start = s, b_end = e\<rparr>]"
    using assms n by (subst generateBuckets_loop.simps) simp
  also have "\<dots> = [\<lparr>b_start = s, b_end = e\<rparr>]"
    by (subst generateBuckets_loop.simps) simp
  finally show ?thesis .
qed

lemma bucketWidth_value:
  "s \<le> e \<Longrightarrow> bucketWidth s e
     = (if e - s \<le> 24 * 60 * 60 * 1000 then 60 * 60 * 1000 else 24 * 60 * 60 * 1000)"
  by (auto simp: bucketWidth_def suggestInterval_def Let_def)

lemma bucketWidth_pos: "0 < bucketWidth s e"
  by (simp add: bucketWidth_def Let_def)

lemma nextBucketEnd_min: "nextBucketEnd s e c = min e (c + bucketWidth s e)"
  by (simp add: nextBucketEnd_def bucketWidth_def addLocalHour_def addLocalDay_def Let_def)

lemma loop_stepped:
  "\<forall>b \<in> set acc. b_end b = nextBucketEnd s e (b_start b) \<Longrightarrow>
   \<forall>b \<in> set (generateBuckets_loop s e c acc). b_end b = nextBucketEnd s e (b_start b)"
proof (induction s e c acc rule: generateBuckets_loop.induct)
  case (1 s e c acc)
  show ?case
  proof (cases "c < e")
    case True
    let ?n = "nextBucketEnd s e c"
    let ?b = "\<lparr>b_start = c, b_end = ?n\<rparr>"
    have "\<forall>b \<in> set (acc @ [?b]). b_end b = nextBucketEnd s e (b_start b)"
      using "1.prems" by simp
    then have "\<forall>b \<in> set (generateBuckets_loop s e ?n (acc @ [?b])).
                 b_end b = nextBucketEnd s e (b_start b)"
      using "1.IH"[OF True] by blast
    then show ?thesis using True by (subst generateBuckets_loop.simps) simp
  next
    case False
    then show ?thesis using "1.prems" by (subst generateBuckets_loop.simps) simp
  qed
qed

lemma stepped_nth:
  assumes c: "contiguous a bs e"
    and st: "\<forall>b \<in> set bs. b_end b = min e (b_start b + w)"
  shows "i < length bs \<Longrightarrow>
           b_start (bs ! i) = a + int i * w \<and> b_end (bs ! i) = min e (a + (int i + 1) * w)"
proof (induction i)
  case 0
  then have "bs \<noteq> []" by auto
  from contiguous_hd_last[OF c this] have "b_start (bs ! 0) = a" by (simp add: hd_conv_nth \<open>bs \<noteq> []\<close>)
  moreover have "bs ! 0 \<in> set bs" using 0 by simp
  ultimately show ?case using st by simp
next
  case (Suc i)
  then have i: "i < length bs" by simp
  have m: "bs ! i \<in> set bs" "bs ! Suc i \<in> set bs" using Suc.prems i by simp_all
  have e1: "b_end (bs ! i) = b_start (bs ! Suc i)" using contiguous_nth[OF c Suc.prems] .
  have "b_start (bs ! Suc i) < b_end (bs ! Suc i)" "b_end (bs ! Suc i) \<le> e"
    using contiguous_bounds[OF c] m(2) by blast+
  then have lt: "b_end (bs ! i) < e" using e1 by simp
  have "b_end (bs ! i) = min e (a + (int i + 1) * w)" using Suc.IH[OF i] by simp
  with lt have "b_end (bs ! i) = a + (int i + 1) * w" by simp
  with e1 have s: "b_start (bs ! Suc i) = a + int (Suc i) * w" by (simp add: add.commute)
  have "b_end (bs ! Suc i) = min e (b_start (bs ! Suc i) + w)" using st m(2) by blast
  with s show ?case by (simp add: algebra_simps)
qed

lemma stepped_full:
  assumes c: "contiguous a bs e"
    and st: "\<forall>b \<in> set bs. b_end b = min e (b_start b + w)"
    and i: "Suc i < length bs"
  shows "b_end (bs ! i) - b_start (bs ! i) = w"
proof -
  have m: "bs ! i \<in> set bs" "bs ! Suc i \<in> set bs" using i by simp_all
  have e1: "b_end (bs ! i) = b_start (bs ! Suc i)" using contiguous_nth[OF c i] .
  have "b_start (bs ! Suc i) < b_end (bs ! Suc i)" "b_end (bs ! Suc i) \<le> e"
    using contiguous_bounds[OF c] m(2) by blast+
  then have lt: "b_end (bs ! i) < e" using e1 by simp
  have "b_end (bs ! i) = min e (b_start (bs ! i) + w)" using st m(1) by blast
  with lt show ?thesis by simp
qed

lemma stepped_length:
  assumes c: "contiguous a bs e"
    and st: "\<forall>b \<in> set bs. b_end b = min e (b_start b + w)"
    and w: "0 < w" and ae: "a < e"
  shows "int (length bs) = (e - a + w - 1) div w"
proof -
  have ne: "bs \<noteq> []" using c ae by auto
  let ?n = "length bs"
  obtain k where k: "?n = Suc k" using ne by (cases bs) auto
  have kl: "k < length bs" using k by simp
  have l: "last bs = bs ! k" using ne k by (simp add: last_conv_nth)
  from stepped_nth[OF c st kl]
  have s: "b_start (bs ! k) = a + int k * w" and f: "b_end (bs ! k) = min e (a + (int k + 1) * w)"
    by simp_all
  have "b_end (bs ! k) = e" using contiguous_hd_last[OF c ne] l by simp
  with f have up: "e \<le> a + (int k + 1) * w" by simp
  have "bs ! k \<in> set bs" using kl by simp
  with contiguous_bounds[OF c] have "b_start (bs ! k) < e" by force
  with s have lo: "a + int k * w < e" by simp
  have "e - a + w - 1 = w * (int k + 1) + (e - a - 1 - int k * w)" by (simp add: algebra_simps)
  moreover have "0 \<le> e - a - 1 - int k * w" using lo by simp
  moreover have "e - a - 1 - int k * w < w" using up by (simp add: algebra_simps)
  ultimately have "(e - a + w - 1) div w = int k + 1"
    using int_div_pos_eq[of "e - a + w - 1" w "int k + 1" "e - a - 1 - int k * w"] by simp
  then show ?thesis using k by simp
qed


lemma generateBuckets_stepped:
  "\<forall>b \<in> set (generateBuckets s e). b_end b = min e (b_start b + bucketWidth s e)"
  using loop_stepped[of "[]" s e s] by (simp add: generateBuckets_def nextBucketEnd_min)

text \<open>
  Claim C8. For every \<open>start < end\<close>, \<open>generateBuckets start end\<close> returns a non-empty
  sequence of non-empty buckets in which each bucket ends where the next one starts, the
  first starts at \<open>start\<close> and the last ends at \<open>end\<close> (it is clipped to \<open>end\<close>), earlier
  buckets lie wholly before later ones, and the union of the buckets is exactly
  \<open>[start, end)\<close>. A range of at most one hour, the smallest bucket width, gives the
  single clipped bucket \<open>[start, end)\<close>.

  The buckets have a fixed width \<open>w\<close>, one hour when the range is at most 24 hours and one
  day otherwise: bucket number \<open>i\<close> (from 0) is exactly
  \<open>[start + i * w, min end (start + (i + 1) * w))\<close>. So every bucket but the last is
  exactly \<open>w\<close> wide, no bucket is wider than \<open>w\<close>, only the last one can be clipped, and
  there are \<open>\<lceil>(end - start) / w\<rceil>\<close> buckets.
\<close>

theorem generateBuckets_cover:
  assumes "startTime < endTime"
  shows "generateBuckets startTime endTime \<noteq> []
     \<and> b_start (hd (generateBuckets startTime endTime)) = startTime
     \<and> b_end (last (generateBuckets startTime endTime)) = endTime
     \<and> (\<forall>i. Suc i < length (generateBuckets startTime endTime) \<longrightarrow>
           b_end (generateBuckets startTime endTime ! i)
             = b_start (generateBuckets startTime endTime ! Suc i))
     \<and> (\<forall>b \<in> set (generateBuckets startTime endTime). b_start b < b_end b)
     \<and> (\<forall>i j. i < j \<and> j < length (generateBuckets startTime endTime) \<longrightarrow>
           b_end (generateBuckets startTime endTime ! i)
             \<le> b_start (generateBuckets startTime endTime ! j))
     \<and> (\<Union>b \<in> set (generateBuckets startTime endTime). {b_start b ..< b_end b})
           = {startTime ..< endTime}
     \<and> (endTime - startTime \<le> 60 * 60 * 1000 \<longrightarrow>
           generateBuckets startTime endTime = [\<lparr>b_start = startTime, b_end = endTime\<rparr>])
     \<and> bucketWidth startTime endTime
           = (if endTime - startTime \<le> 24 * 60 * 60 * 1000
              then 60 * 60 * 1000 else 24 * 60 * 60 * 1000)
     \<and> (\<forall>i. i < length (generateBuckets startTime endTime) \<longrightarrow>
           b_start (generateBuckets startTime endTime ! i)
             = startTime + int i * bucketWidth startTime endTime
         \<and> b_end (generateBuckets startTime endTime ! i)
             = min endTime (startTime + (int i + 1) * bucketWidth startTime endTime))
     \<and> (\<forall>i. Suc i < length (generateBuckets startTime endTime) \<longrightarrow>
           b_end (generateBuckets startTime endTime ! i)
             - b_start (generateBuckets startTime endTime ! i)
             = bucketWidth startTime endTime)
     \<and> (\<forall>b \<in> set (generateBuckets startTime endTime).
           b_end b - b_start b \<le> bucketWidth startTime endTime)
     \<and> int (length (generateBuckets startTime endTime))
           = (endTime - startTime + bucketWidth startTime endTime - 1)
               div bucketWidth startTime endTime"
proof -
  let ?bs = "generateBuckets startTime endTime"
  let ?w = "bucketWidth startTime endTime"
  have c: "contiguous startTime ?bs endTime"
    unfolding generateBuckets_def
    using loop_contiguous[of startTime "[]" startTime endTime startTime] assms by simp
  have ne: "?bs \<noteq> []" using c assms by auto
  note st = generateBuckets_stepped[of startTime endTime]
  have old: "?bs \<noteq> []
     \<and> b_start (hd ?bs) = startTime
     \<and> b_end (last ?bs) = endTime
     \<and> (\<forall>i. Suc i < length ?bs \<longrightarrow> b_end (?bs ! i) = b_start (?bs ! Suc i))
     \<and> (\<forall>b \<in> set ?bs. b_start b < b_end b)
     \<and> (\<forall>i j. i < j \<and> j < length ?bs \<longrightarrow> b_end (?bs ! i) \<le> b_start (?bs ! j))
     \<and> (\<Union>b \<in> set ?bs. {b_start b ..< b_end b}) = {startTime ..< endTime}
     \<and> (endTime - startTime \<le> 60 * 60 * 1000 \<longrightarrow>
           ?bs = [\<lparr>b_start = startTime, b_end = endTime\<rparr>])"
    using ne contiguous_hd_last[OF c ne] contiguous_nth[OF c] contiguous_bounds[OF c]
      contiguous_disjoint[OF c] contiguous_union[OF c] loop_single[OF assms]
    by (simp add: generateBuckets_def)
  have w: "?w = (if endTime - startTime \<le> 24 * 60 * 60 * 1000
                 then 60 * 60 * 1000 else 24 * 60 * 60 * 1000)"
    using bucketWidth_value[of startTime endTime] assms by simp
  have n: "\<forall>i. i < length ?bs \<longrightarrow>
             b_start (?bs ! i) = startTime + int i * ?w
           \<and> b_end (?bs ! i) = min endTime (startTime + (int i + 1) * ?w)"
    using stepped_nth[OF c st] by blast
  have f: "\<forall>i. Suc i < length ?bs \<longrightarrow> b_end (?bs ! i) - b_start (?bs ! i) = ?w"
    using stepped_full[OF c st] by blast
  have le: "\<forall>b \<in> set ?bs. b_end b - b_start b \<le> ?w"
    using st by auto
  have len: "int (length ?bs) = (endTime - startTime + ?w - 1) div ?w"
    using stepped_length[OF c st bucketWidth_pos assms] .
  from old w n f le len show ?thesis by blast
qed

theorem generateBuckets_cover_witness:
  "(0::int) < 7200001
   \<and> bucketWidth 0 7200001 = 3600000
   \<and> generateBuckets 0 7200001
       = [\<lparr>b_start = 0, b_end = 3600000\<rparr>,
          \<lparr>b_start = 3600000, b_end = 7200000\<rparr>,
          \<lparr>b_start = 7200000, b_end = 7200001\<rparr>]
   \<and> (0::int) < 172800001
   \<and> bucketWidth 0 172800001 = 86400000
   \<and> generateBuckets 0 172800001
       = [\<lparr>b_start = 0, b_end = 86400000\<rparr>,
          \<lparr>b_start = 86400000, b_end = 172800000\<rparr>,
          \<lparr>b_start = 172800000, b_end = 172800001\<rparr>]
   \<and> (0::int) < 86399000
   \<and> length (generateBuckets 0 86399000) = 24
   \<and> last (generateBuckets 0 86399000) = \<lparr>b_start = 82800000, b_end = 86399000\<rparr>
   \<and> (5::int) < 1000
   \<and> generateBuckets 5 1000 = [\<lparr>b_start = 5, b_end = 1000\<rparr>]"
proof -
  have h: "(0::int) < 7200001" by simp
  note t = generateBuckets_cover[OF h]
  let ?bs = "generateBuckets 0 7200001"
  from t have w: "bucketWidth 0 7200001 = 3600000" by simp
  from t have "int (length ?bs) = (7200001 + bucketWidth 0 7200001 - 1) div bucketWidth 0 7200001"
    by simp
  then have l: "length ?bs = 3" by (simp add: w)
  from t have n: "\<And>i. i < length ?bs \<Longrightarrow>
        b_start (?bs ! i) = int i * bucketWidth 0 7200001
      \<and> b_end (?bs ! i) = min 7200001 ((int i + 1) * bucketWidth 0 7200001)"
    by simp
  have "?bs ! 0 = \<lparr>b_start = 0, b_end = 3600000\<rparr>"
       "?bs ! 1 = \<lparr>b_start = 3600000, b_end = 7200000\<rparr>"
       "?bs ! 2 = \<lparr>b_start = 7200000, b_end = 7200001\<rparr>"
    using n[of 0] n[of 1] n[of 2] l w by (simp_all add: Bucket.equality)
  moreover obtain x y z where "?bs = [x, y, z]"
    using l by (auto simp: length_Suc_conv numeral_3_eq_3)
  ultimately have a: "?bs = [\<lparr>b_start = 0, b_end = 3600000\<rparr>,
          \<lparr>b_start = 3600000, b_end = 7200000\<rparr>,
          \<lparr>b_start = 7200000, b_end = 7200001\<rparr>]" by simp

  have hd: "(0::int) < 172800001" by simp
  note td = generateBuckets_cover[OF hd]
  let ?ds = "generateBuckets 0 172800001"
  from td have wd: "bucketWidth 0 172800001 = 86400000" by simp
  from td have "int (length ?ds)
      = (172800001 + bucketWidth 0 172800001 - 1) div bucketWidth 0 172800001"
    by simp
  then have ld: "length ?ds = 3" by (simp add: wd)
  from td have nd: "\<And>i. i < length ?ds \<Longrightarrow>
        b_start (?ds ! i) = int i * bucketWidth 0 172800001
      \<and> b_end (?ds ! i) = min 172800001 ((int i + 1) * bucketWidth 0 172800001)"
    by simp
  have "?ds ! 0 = \<lparr>b_start = 0, b_end = 86400000\<rparr>"
       "?ds ! 1 = \<lparr>b_start = 86400000, b_end = 172800000\<rparr>"
       "?ds ! 2 = \<lparr>b_start = 172800000, b_end = 172800001\<rparr>"
    using nd[of 0] nd[of 1] nd[of 2] ld wd by (simp_all add: Bucket.equality)
  moreover obtain x y z where "?ds = [x, y, z]"
    using ld by (auto simp: length_Suc_conv numeral_3_eq_3)
  ultimately have b: "?ds = [\<lparr>b_start = 0, b_end = 86400000\<rparr>,
          \<lparr>b_start = 86400000, b_end = 172800000\<rparr>,
          \<lparr>b_start = 172800000, b_end = 172800001\<rparr>]" by simp

  have hh: "(0::int) < 86399000" by simp
  note th = generateBuckets_cover[OF hh]
  let ?hs = "generateBuckets 0 86399000"
  from th have wh: "bucketWidth 0 86399000 = 3600000" by simp
  from th have "int (length ?hs)
      = (86399000 + bucketWidth 0 86399000 - 1) div bucketWidth 0 86399000"
    by simp
  then have lh: "length ?hs = 24" by (simp add: wh)
  from th have ne: "?hs \<noteq> []" by simp
  from th have "23 < length ?hs \<longrightarrow>
        b_start (?hs ! 23) = int 23 * bucketWidth 0 86399000
      \<and> b_end (?hs ! 23) = min 86399000 ((int 23 + 1) * bucketWidth 0 86399000)"
    by simp
  then have "?hs ! 23 = \<lparr>b_start = 82800000, b_end = 86399000\<rparr>"
    using lh wh by (simp add: Bucket.equality)
  then have c: "last ?hs = \<lparr>b_start = 82800000, b_end = 86399000\<rparr>"
    using ne lh by (simp add: last_conv_nth)

  have hs: "(5::int) < 1000" by simp
  from generateBuckets_cover[OF hs]
  have d: "generateBuckets 5 1000 = [\<lparr>b_start = 5, b_end = 1000\<rparr>]" by simp
  from h w a hd wd b hh lh c hs d show ?thesis by blast
qed

section \<open>Webhook dispatcher: the retry loop\<close>


lemma updateDeliveryStatus_present:
  assumes "\<exists>w \<in> set (webhooks db). wh_id w = webhookId"
  shows "updateDeliveryStatus stringify now db webhookId result =
           Inr \<lparr>webhooks = recorded now (webhooks db) webhookId (success result),
                deliveries = deliveries db @ [deliveryRow stringify webhookId result]\<rparr>"
  using assms by (simp add: updateDeliveryStatus_def webhook_update_def recorded_def)

lemma loop_done:
  assumes "\<not> att < maxRetries config" "\<exists>w \<in> set (webhooks db). wh_id w = wh_id webhook"
  shows "deliverWebhook_loop world config now webhook eventType payload dId att lastError db sent =
           (Inr (failureResult dId att lastError),
            \<lparr>webhooks = recorded now (webhooks db) (wh_id webhook) False,
             deliveries = deliveries db
                @ [deliveryRow (jsonStringifyResponse world) (wh_id webhook)
                     (failureResult dId att lastError)]\<rparr>,
            sent)"
  using assms(1)
  by (subst deliverWebhook_loop.simps)
     (simp add: updateDeliveryStatus_present[OF assms(2)] failureResult_def)

lemma loop_ok:
  assumes "att < maxRetries config" "\<exists>w \<in> set (webhooks db). wh_id w = wh_id webhook"
    and "post world (att + 1) (attemptRequest world config webhook eventType payload dId)
           = HttpResponse status body"
  shows "deliverWebhook_loop world config now webhook eventType payload dId att lastError db sent =
           (Inr (successResult dId (att + 1) status body),
            \<lparr>webhooks = recorded now (webhooks db) (wh_id webhook) True,
             deliveries = deliveries db
                @ [deliveryRow (jsonStringifyResponse world) (wh_id webhook)
                     (successResult dId (att + 1) status body)]\<rparr>,
            sent @ [attemptRequest world config webhook eventType payload dId])"
  using assms(1,3)
  by (subst deliverWebhook_loop.simps)
     (simp add: updateDeliveryStatus_present[OF assms(2)] successResult_def)

lemma loop_err:
  assumes "att < maxRetries config"
    and "post world (att + 1) (attemptRequest world config webhook eventType payload dId)
           = HttpError msg status"
  shows "deliverWebhook_loop world config now webhook eventType payload dId att lastError db sent =
         deliverWebhook_loop world config now webhook eventType payload dId (att + 1)
           (Some (msg, status)) db
           (sent @ [attemptRequest world config webhook eventType payload dId])"
  using assms by (subst deliverWebhook_loop.simps) simp

lemma deliver_loop_spec:
  assumes ex: "\<exists>w \<in> set (webhooks db). wh_id w = wh_id webhook"
    and le: "att \<le> maxRetries config"
  shows "\<exists>res. deliverWebhook_loop world config now webhook eventType payload dId att lastError db sent =
           (Inr res,
            \<lparr>webhooks = recorded now (webhooks db) (wh_id webhook) (success res),
             deliveries = deliveries db
                @ [deliveryRow (jsonStringifyResponse world) (wh_id webhook) res]\<rparr>,
            sent @ replicate (attempt res - att)
                     (attemptRequest world config webhook eventType payload dId))
         \<and> deliveryId res = dId
         \<and> loopSpec world config (attemptRequest world config webhook eventType payload dId)
              att lastError res"
  using le
proof (induction n \<equiv> "maxRetries config - att" arbitrary: att lastError sent)
  case 0
  then have d: "\<not> att < maxRetries config" by simp
  show ?case
    unfolding loop_done[OF d ex]
    using 0 by (intro exI[of _ "failureResult dId att lastError"])
               (auto simp add: failureResult_def loopSpec_def)
next
  case (Suc n)
  let ?req = "attemptRequest world config webhook eventType payload dId"
  from Suc have lt: "att < maxRetries config" by simp
  show ?case
  proof (cases "post world (att + 1) ?req")
    case (HttpResponse status body)
    show ?thesis
      unfolding loop_ok[OF lt ex HttpResponse]
      using lt HttpResponse
      by (intro exI[of _ "successResult dId (att + 1) status body"])
         (auto simp add: successResult_def loopSpec_def)
  next
    case (HttpError msg status)
    have n: "n = maxRetries config - (att + 1)" using Suc.hyps(2) by simp
    have le': "att + 1 \<le> maxRetries config" using lt by simp
    from Suc.hyps(1)[OF n le', of "Some (msg, status)" "sent @ [?req]"]
    obtain res where
      r: "deliverWebhook_loop world config now webhook eventType payload dId (att + 1)
            (Some (msg, status)) db (sent @ [?req]) =
           (Inr res,
            \<lparr>webhooks = recorded now (webhooks db) (wh_id webhook) (success res),
             deliveries = deliveries db
                @ [deliveryRow (jsonStringifyResponse world) (wh_id webhook) res]\<rparr>,
            (sent @ [?req]) @ replicate (attempt res - (att + 1)) ?req)"
      and d: "deliveryId res = dId"
      and s: "loopSpec world config ?req (att + 1) (Some (msg, status)) res"
      by blast
    from s have b: "att + 1 \<le> attempt res" by (simp add: loopSpec_def)
    then have rep: "(sent @ [?req]) @ replicate (attempt res - (att + 1)) ?req
                    = sent @ replicate (attempt res - att) ?req"
      by (simp add: replicate_app_Cons_same Suc_diff_le flip: replicate_Suc)
    have ks: "\<And>k. att < k \<Longrightarrow> k = att + 1 \<or> att + 1 < k" by arith
    have e1: "isHttpError (post world (att + 1) ?req)"
      using HttpError by (simp add: isHttpError_def)
    have s': "loopSpec world config ?req att lastError res"
      unfolding loopSpec_def
    proof (intro conjI impI)
      show "att \<le> attempt res" using b by simp
      show "attempt res \<le> maxRetries config" using s by (simp add: loopSpec_def)
    next
      assume "success res"
      with s show "att < attempt res" 
        "post world (attempt res) ?req = HttpResponse (dr_statusCode res) (the (response res))"
        "response res \<noteq> None" "dr_error res = None"
        by (simp_all add: loopSpec_def)
      from s \<open>success res\<close> have "\<forall>k. att + 1 < k \<and> k < attempt res \<longrightarrow> isHttpError (post world k ?req)"
        by (simp add: loopSpec_def)
      with e1 ks show "\<forall>k. att < k \<and> k < attempt res \<longrightarrow> isHttpError (post world k ?req)"
        by metis
    next
      assume f: "\<not> success res"
      with s show "attempt res = maxRetries config" "response res = None"
        by (simp_all add: loopSpec_def)
      from s f have "\<forall>k. att + 1 < k \<and> k \<le> maxRetries config \<longrightarrow> isHttpError (post world k ?req)"
        by (simp add: loopSpec_def)
      with e1 ks show "\<forall>k. att < k \<and> k \<le> maxRetries config \<longrightarrow> isHttpError (post world k ?req)"
        by metis
      show "if att < maxRetries config
            then \<exists>msg status. post world (maxRetries config) ?req = HttpError msg status
                     \<and> dr_error res = Some msg
                     \<and> dr_statusCode res = (case status of None \<Rightarrow> 0 | Some s \<Rightarrow> s)
            else dr_error res = map_option fst lastError
                 \<and> dr_statusCode res
                     = (case lastError of Some (msg, Some status) \<Rightarrow> status | _ \<Rightarrow> 0)"
      proof (cases "att + 1 < maxRetries config")
        case True
        with s f lt show ?thesis by (simp add: loopSpec_def)
      next
        case False
        with lt have m: "maxRetries config = att + 1" by simp
        from s f False have de: "dr_error res = Some msg"
          and "dr_statusCode res = (case status of None \<Rightarrow> 0 | Some s \<Rightarrow> s)"
          by (simp_all add: loopSpec_def split: option.splits)
        with HttpError m lt show ?thesis by simp
      qed
    qed
    show ?thesis
      unfolding loop_err[OF lt HttpError] r rep
      using d s' by blast
  qed
qed



lemma loop_absent:
  assumes "\<not> (\<exists>w \<in> set (webhooks db). wh_id w = wh_id webhook)"
  shows "\<exists>e sent'. deliverWebhook_loop world config now webhook eventType payload dId att lastError db sent =
           (Inl e, db, sent')"
  using assms
proof (induction world config now webhook eventType payload dId att lastError db sent
        rule: deliverWebhook_loop.induct)
  case (1 world config now webhook eventType payload dId att lastError db sent)
  have u: "\<And>result::'b WebhookDeliveryResult.
            updateDeliveryStatus (jsonStringifyResponse world) now db (wh_id webhook) result
             = Inl (PrismaError ''P2025'' ''Record to update not found.'')"
    using "1.prems" by (simp add: updateDeliveryStatus_def webhook_update_def)
  show ?case
  proof (cases "att < maxRetries config")
    case False
    then show ?thesis by (subst deliverWebhook_loop.simps) (simp add: u)
  next
    case True
    show ?thesis
    proof (cases "post world (att + 1) (attemptRequest world config webhook eventType payload dId)")
      case (HttpResponse status body)
      from "1.IH"(1)[OF True HttpResponse u "1.prems"] True HttpResponse
      show ?thesis by (subst deliverWebhook_loop.simps) (simp add: u)
    next
      case (HttpError msg status)
      from "1.IH"(2)[OF True HttpError "1.prems"] True HttpError
      show ?thesis by (subst deliverWebhook_loop.simps) simp
    qed
  qed
qed

lemma loop_sent:
  "set (snd (snd (deliverWebhook_loop world config now webhook eventType payload dId att lastError db sent)))
     \<subseteq> set sent \<union> {attemptRequest world config webhook eventType payload dId}"
proof (induction world config now webhook eventType payload dId att lastError db sent
        rule: deliverWebhook_loop.induct)
  case (1 world config now webhook eventType payload dId att lastError db sent)
  show ?case
  proof (cases "att < maxRetries config")
    case False
    then show ?thesis
      by (subst deliverWebhook_loop.simps) (auto split: sum.splits)
  next
    case True
    show ?thesis
    proof (cases "post world (att + 1) (attemptRequest world config webhook eventType payload dId)")
      case (HttpResponse status body)
      show ?thesis
      proof (cases "updateDeliveryStatus (jsonStringifyResponse world) now db (wh_id webhook)
                        (successResult dId (att + 1) status body)")
        case (Inl e)
        from "1.IH"(1)[OF True HttpResponse Inl] True HttpResponse Inl
        show ?thesis by (subst deliverWebhook_loop.simps) auto
      next
        case (Inr db')
        with True HttpResponse show ?thesis by (subst deliverWebhook_loop.simps) auto
      qed
    next
      case (HttpError msg status)
      from "1.IH"(2)[OF True HttpError] True HttpError
      show ?thesis by (subst deliverWebhook_loop.simps) auto
    qed
  qed
qed


text \<open>
  Claim C5. For every subscriber whose row is in the store, a delivery ends in a terminal
  result and persists exactly one \<open>WebhookDelivery\<close> row: the deliveries after the call are
  the deliveries before it followed by one row, which carries the final status, the
  response of the successful attempt or the message of the last error, and the attempt
  count at termination. The delivery succeeds at the first attempt \<open>n \<le> maxRetries\<close> that
  gets a response, after exactly \<open>n\<close> outbound requests; it fails, after exactly
  \<open>maxRetries\<close> requests, when all of them end in an error. The witness is the delivery
  that fails twice and succeeds on the third attempt: one row with status success and
  retryCount 3, after 3 requests.
\<close>

theorem deliverWebhook_records_once:
  assumes "\<exists>w \<in> set (webhooks db). wh_id w = wh_id webhook"
  shows "\<exists>res. deliverWebhook world config now db webhook eventType payload dId =
           (Inr res,
            \<lparr>webhooks = recorded now (webhooks db) (wh_id webhook) (success res),
             deliveries = deliveries db
               @ [\<lparr>wd_webhookId = wh_id webhook, wd_eventId = dId,
                    wd_status = (if success res then ''success'' else ''failed''),
                    wd_response = map_option (jsonStringifyResponse world) (response res),
                    wd_error = (case dr_error res of
                                  None \<Rightarrow> None
                                | Some m \<Rightarrow> if m = [] then None else Some m),
                    wd_retryCount = attempt res\<rparr>]\<rparr>,
            replicate (attempt res) (attemptRequest world config webhook eventType payload dId))
       \<and> attempt res \<le> maxRetries config
       \<and> (success res \<longrightarrow>
             1 \<le> attempt res
           \<and> post world (attempt res) (attemptRequest world config webhook eventType payload dId)
               = HttpResponse (dr_statusCode res) (the (response res))
           \<and> response res \<noteq> None \<and> dr_error res = None
           \<and> (\<forall>k. 1 \<le> k \<and> k < attempt res \<longrightarrow>
                  isHttpError (post world k
                     (attemptRequest world config webhook eventType payload dId))))
       \<and> (\<not> success res \<longrightarrow>
             attempt res = maxRetries config
           \<and> response res = None
           \<and> (\<forall>k. 1 \<le> k \<and> k \<le> maxRetries config \<longrightarrow>
                  isHttpError (post world k
                     (attemptRequest world config webhook eventType payload dId)))
           \<and> (0 < maxRetries config \<longrightarrow>
                 (\<exists>msg status. post world (maxRetries config)
                       (attemptRequest world config webhook eventType payload dId)
                     = HttpError msg status
                   \<and> dr_error res = Some msg
                   \<and> dr_statusCode res = (case status of None \<Rightarrow> 0 | Some s \<Rightarrow> s))))"
proof -
  let ?req = "attemptRequest world config webhook eventType payload dId"
  from deliver_loop_spec[OF assms, of 0 config world now eventType payload dId None "[]"]
  obtain res where
    r: "deliverWebhook world config now db webhook eventType payload dId =
           (Inr res,
            \<lparr>webhooks = recorded now (webhooks db) (wh_id webhook) (success res),
             deliveries = deliveries db
                @ [deliveryRow (jsonStringifyResponse world) (wh_id webhook) res]\<rparr>,
            replicate (attempt res) ?req)"
    and d: "deliveryId res = dId"
    and s: "loopSpec world config ?req 0 None res"
    by (auto simp: deliverWebhook_def)
  have row: "deliveryRow (jsonStringifyResponse world) (wh_id webhook) res =
       \<lparr>wd_webhookId = wh_id webhook, wd_eventId = dId,
                    wd_status = (if success res then ''success'' else ''failed''),
                    wd_response = map_option (jsonStringifyResponse world) (response res),
                    wd_error = (case dr_error res of
                                  None \<Rightarrow> None
                                | Some m \<Rightarrow> if m = [] then None else Some m),
                    wd_retryCount = attempt res\<rparr>"
    using d by (simp add: deliveryRow_def)
  have k1: "\<And>k::nat. (1 \<le> k) = (0 < k)" by arith
  show ?thesis
    apply (rule exI[of _ res])
    unfolding r row using s
    by (auto simp add: loopSpec_def k1)
qed

theorem deliverWebhook_records_once_witness:
  "(\<exists>w \<in> set (webhooks db1). wh_id w = wh_id hook1)
   \<and> deliveries (fst (snd (deliverWebhook worldThird deliveryConfig ''t1'' db1 hook1
                              ''event.created'' ''{}'' ''d-1'')))
       = [\<lparr>wd_webhookId = ''123'', wd_eventId = ''d-1'', wd_status = ''success'',
            wd_response = Some ''ok'', wd_error = None, wd_retryCount = 3\<rparr>]
   \<and> length (snd (snd (deliverWebhook worldThird deliveryConfig ''t1'' db1 hook1
                              ''event.created'' ''{}'' ''d-1''))) = 3"
proof -
  let ?req = "attemptRequest worldThird deliveryConfig hook1 ''event.created'' ''{}'' ''d-1''"
  have h: "\<exists>w \<in> set (webhooks db1). wh_id w = wh_id hook1" by (simp add: db1_def)
  have p: "\<And>n. post worldThird n ?req = (if n < 3 then HttpError ''Failed to deliver'' None
                           else HttpResponse 200 ''ok'')"
    by (simp add: worldThird_def)
  have h': "\<exists>w \<in> set (webhooks db1). wh_id w = ''123''" by (simp add: db1_def hook1_def)
  have m: "maxRetries deliveryConfig = 3" by (simp add: deliveryConfig_def)
  have d: "deliveries db1 = []" "wh_id hook1 = ''123''" "jsonStringifyResponse worldThird = (\<lambda>r. r)"
    by (simp_all add: db1_def hook1_def worldThird_def)
  have e: "\<And>st body. (HttpResponse 200 ''ok'' = HttpResponse st body) = (st = 200 \<and> body = ''ok'')"
    by auto
  show ?thesis
    using deliverWebhook_records_once
            [OF h, of worldThird deliveryConfig "''t1''" "''event.created''" "''{}''" "''d-1''"]
    apply (elim exE conjE)
    apply (simp add: h m d)
    apply (auto simp: p isHttpError_def h' split: if_splits)
    done
qed

section \<open>Webhook dispatcher: effect on the subscription rows\<close>

lemma recorded_frame:
  "length (recorded now rows webhookId en) = length rows
   \<and> (\<forall>i < length rows.
         wh_id (recorded now rows webhookId en ! i) = wh_id (rows ! i)
       \<and> wh_name (recorded now rows webhookId en ! i) = wh_name (rows ! i)
       \<and> wh_url (recorded now rows webhookId en ! i) = wh_url (rows ! i)
       \<and> wh_secret (recorded now rows webhookId en ! i) = wh_secret (rows ! i)
       \<and> wh_events (recorded now rows webhookId en ! i) = wh_events (rows ! i)
       \<and> wh_headers (recorded now rows webhookId en ! i) = wh_headers (rows ! i)
       \<and> wh_retryCount (recorded now rows webhookId en ! i) = wh_retryCount (rows ! i)
       \<and> wh_createdAt (recorded now rows webhookId en ! i) = wh_createdAt (rows ! i)
       \<and> (wh_id (rows ! i) \<noteq> webhookId \<longrightarrow> recorded now rows webhookId en ! i = rows ! i)
       \<and> (wh_id (rows ! i) = webhookId \<longrightarrow>
             wh_enabled (recorded now rows webhookId en ! i) = en
           \<and> wh_updatedAt (recorded now rows webhookId en ! i) = now))"
  by (simp add: recorded_def)

lemma deliverWebhook_db:
  "(\<exists>res. fst (deliverWebhook world config now db webhook eventType payload dId) = Inr res
        \<and> webhooks (fst (snd (deliverWebhook world config now db webhook eventType payload dId)))
            = recorded now (webhooks db) (wh_id webhook) (success res))
   \<or> (\<exists>e. fst (deliverWebhook world config now db webhook eventType payload dId) = Inl e
        \<and> fst (snd (deliverWebhook world config now db webhook eventType payload dId)) = db)"
proof (cases "\<exists>w \<in> set (webhooks db). wh_id w = wh_id webhook")
  case True
  from deliver_loop_spec[OF True, of 0 config world now eventType payload dId None "[]"]
  show ?thesis by (auto simp: deliverWebhook_def)
next
  case False
  from loop_absent[OF False, of world config now eventType payload dId 0 None "[]"]
  show ?thesis by (auto simp: deliverWebhook_def)
qed

lemma deliverWebhook_worldDown:
  "deliverWebhook worldDown deliveryConfig ''t1'' db1 hook1 ''event.created'' ''{}'' ''d-1'' =
     (Inr \<lparr>success = False, dr_statusCode = 503, response = None,
           dr_error = Some ''Failed to deliver'', deliveryId = ''d-1'', attempt = 3\<rparr>,
      \<lparr>webhooks = [hook1\<lparr>wh_enabled := False, wh_updatedAt := ''t1''\<rparr>],
       deliveries = [\<lparr>wd_webhookId = ''123'', wd_eventId = ''d-1'', wd_status = ''failed'',
                      wd_response = None, wd_error = Some ''Failed to deliver'',
                      wd_retryCount = 3\<rparr>]\<rparr>,
      replicate 3 (attemptRequest worldDown deliveryConfig hook1 ''event.created'' ''{}'' ''d-1''))"
proof -
  have m: "maxRetries deliveryConfig = 3" by (simp add: deliveryConfig_def)
  have p: "\<And>n req. post worldDown n req = HttpError ''Failed to deliver'' (Some 503)"
    by (simp add: worldDown_def)
  have h: "\<exists>w \<in> set (webhooks db1). wh_id w = wh_id hook1" by (simp add: db1_def)
  show ?thesis
    unfolding deliverWebhook_def
    apply (subst loop_err[OF _ p], simp add: m)
    apply (subst loop_err[OF _ p], simp add: m)
    apply (subst loop_err[OF _ p], simp add: m)
    apply (subst loop_done[OF _ h], simp add: m)
    apply (simp add: failureResult_def deliveryRow_def recorded_def db1_def hook1_def
             worldDown_def numeral_3_eq_3)
    done
qed

text \<open>
  Claim C6, as amended. A delivery leaves the id, name, url, secret, subscribed event types,
  headers, retry count and creation time of every \<open>Webhook\<close> row unchanged, and leaves the
  rows of all other webhooks unchanged altogether; when it records its outcome, it sets
  the enabled flag of the delivered webhook's row to the success of that outcome.
\<close>

theorem deliverWebhook_webhook_frame:
  "length (webhooks (fst (snd (deliverWebhook world config now db webhook eventType payload dId))))
     = length (webhooks db)
   \<and> (\<forall>i < length (webhooks db).
         wh_id (webhooks (fst (snd (deliverWebhook world config now db webhook eventType payload dId))) ! i)
           = wh_id (webhooks db ! i)
       \<and> wh_name (webhooks (fst (snd (deliverWebhook world config now db webhook eventType payload dId))) ! i)
           = wh_name (webhooks db ! i)
       \<and> wh_url (webhooks (fst (snd (deliverWebhook world config now db webhook eventType payload dId))) ! i)
           = wh_url (webhooks db ! i)
       \<and> wh_secret (webhooks (fst (snd (deliverWebhook world config now db webhook eventType payload dId))) ! i)
           = wh_secret (webhooks db ! i)
       \<and> wh_events (webhooks (fst (snd (deliverWebhook world config now db webhook eventType payload dId))) ! i)
           = wh_events (webhooks db ! i)
       \<and> wh_headers (webhooks (fst (snd (deliverWebhook world config now db webhook eventType payload dId))) ! i)
           = wh_headers (webhooks db ! i)
       \<and> wh_retryCount (webhooks (fst (snd (deliverWebhook world config now db webhook eventType payload dId))) ! i)
           = wh_retryCount (webhooks db ! i)
       \<and> wh_createdAt (webhooks (fst (snd (deliverWebhook world config now db webhook eventType payload dId))) ! i)
           = wh_createdAt (webhooks db ! i)
       \<and> (wh_id (webhooks db ! i) \<noteq> wh_id webhook \<longrightarrow>
            webhooks (fst (snd (deliverWebhook world config now db webhook eventType payload dId))) ! i
              = webhooks db ! i)
       \<and> (\<forall>res. fst (deliverWebhook world config now db webhook eventType payload dId) = Inr res
                \<and> wh_id (webhooks db ! i) = wh_id webhook \<longrightarrow>
              wh_enabled (webhooks (fst (snd (deliverWebhook world config now db webhook eventType payload dId))) ! i)
                = success res))"
  using deliverWebhook_db[of world config now db webhook eventType payload dId]
proof (elim disjE exE conjE)
  fix res
  assume a: "fst (deliverWebhook world config now db webhook eventType payload dId) = Inr res"
     and b: "webhooks (fst (snd (deliverWebhook world config now db webhook eventType payload dId)))
            = recorded now (webhooks db) (wh_id webhook) (success res)"
  show ?thesis
    unfolding a b using recorded_frame[of now "webhooks db" "wh_id webhook" "success res"]
    by simp
next
  fix e
  assume a: "fst (deliverWebhook world config now db webhook eventType payload dId) = Inl e"
     and b: "fst (snd (deliverWebhook world config now db webhook eventType payload dId)) = db"
  show ?thesis unfolding a b by simp
qed

theorem deliverWebhook_webhook_frame_witness:
  "0 < length (webhooks db1)
   \<and> wh_url (webhooks (fst (snd
        (deliverWebhook worldDown deliveryConfig ''t1'' db1 hook1 ''event.created'' ''{}'' ''d-1''))) ! 0)
      = ''https://example.com/webhook''
   \<and> wh_enabled (webhooks (fst (snd
        (deliverWebhook worldDown deliveryConfig ''t1'' db1 hook1 ''event.created'' ''{}'' ''d-1''))) ! 0)
      = False"
proof -
  have l: "0 < length (webhooks db1)" by (simp add: db1_def)
  have f: "fst (deliverWebhook worldDown deliveryConfig ''t1'' db1 hook1 ''event.created'' ''{}'' ''d-1'')
            = Inr \<lparr>success = False, dr_statusCode = 503, response = None,
           dr_error = Some ''Failed to deliver'', deliveryId = ''d-1'', attempt = 3\<rparr>"
    by (simp add: deliverWebhook_worldDown)
  have w: "webhooks db1 ! 0 = hook1" by (simp add: db1_def)
  from deliverWebhook_webhook_frame
         [of worldDown deliveryConfig "''t1''" db1 hook1 "''event.created''" "''{}''" "''d-1''"]
       l f w
  show ?thesis by (auto simp: hook1_def)
qed

text \<open>
  The claim as written has the enabled flag untouched. A subscriber that was enabled is
  disabled by a delivery whose three attempts fail.
\<close>

theorem deliverWebhook_disables_counterexample:
  "map wh_enabled (webhooks db1) = [True]
   \<and> map wh_enabled (webhooks (fst (snd
        (deliverWebhook worldDown deliveryConfig ''t1'' db1 hook1 ''event.created'' ''{}'' ''d-1''))))
     = [False]"
  by (simp add: deliverWebhook_worldDown) (simp add: db1_def hook1_def)


section \<open>Webhook dispatcher: signed requests\<close>

lemma deliverWebhook_sent:
  "req \<in> set (snd (snd (deliverWebhook world config now db webhook eventType payload dId)))
     \<Longrightarrow> req = attemptRequest world config webhook eventType payload dId"
  using loop_sent[of world config now webhook eventType payload dId 0 None db "[]"]
  by (auto simp: deliverWebhook_def)

lemma deliverAll_sents:
  "length (snd (snd (deliverAll world config now db pairs eventType payload))) = length pairs
   \<and> (\<forall>k < length pairs.
        \<forall>req \<in> set (snd (snd (deliverAll world config now db pairs eventType payload)) ! k).
           req = attemptRequest world config (fst (pairs ! k)) eventType payload (snd (pairs ! k)))"
proof (induction pairs arbitrary: db)
  case Nil
  then show ?case by simp
next
  case (Cons pr rest)
  obtain webhook dId where pr: "pr = (webhook, dId)" by (cases pr)
  obtain r db' sent where d: "deliverWebhook world config now db webhook eventType payload dId = (r, db', sent)"
    by (cases "deliverWebhook world config now db webhook eventType payload dId")
  obtain rs db'' sents where a: "deliverAll world config now db' rest eventType payload = (rs, db'', sents)"
    by (cases "deliverAll world config now db' rest eventType payload")
  have s: "snd (snd (deliverAll world config now db (pr # rest) eventType payload)) = sent # sents"
    by (simp add: pr d a)
  have h: "\<forall>req \<in> set sent. req = attemptRequest world config webhook eventType payload dId"
    using deliverWebhook_sent[of _ world config now db webhook eventType payload dId] d by simp
  from Cons.IH[of db'] a
  have ih: "length sents = length rest"
    "\<forall>k < length rest. \<forall>req \<in> set (sents ! k).
        req = attemptRequest world config (fst (rest ! k)) eventType payload (snd (rest ! k))"
    by simp_all
  show ?case
    unfolding s
  proof (intro conjI allI impI)
    show "length (sent # sents) = length (pr # rest)" using ih by simp
  next
    fix k assume k: "k < length (pr # rest)"
    show "\<forall>req \<in> set ((sent # sents) ! k).
           req = attemptRequest world config (fst ((pr # rest) ! k)) eventType payload (snd ((pr # rest) ! k))"
    proof (cases k)
      case 0
      with h pr show ?thesis by simp
    next
      case (Suc j)
      with k ih show ?thesis by simp
    qed
  qed
qed

lemma attemptRequest_headers:
  "req_url (attemptRequest world deliveryConfig webhook eventType payload dId) = wh_url webhook
   \<and> req_data (attemptRequest world deliveryConfig webhook eventType payload dId) = payload
   \<and> req_headers (attemptRequest world deliveryConfig webhook eventType payload dId)
        ''x-webhook-signature''
      = Some (hmacSha256Hex world (wh_secret webhook) (jsonStringify world payload))
   \<and> req_headers (attemptRequest world deliveryConfig webhook eventType payload dId)
        ''x-webhook-id'' = Some (wh_id webhook)
   \<and> req_headers (attemptRequest world deliveryConfig webhook eventType payload dId)
        ''x-delivery-id'' = Some dId
   \<and> req_headers (attemptRequest world deliveryConfig webhook eventType payload dId)
        ''x-event-type'' = Some eventType"
  by (simp add: attemptRequest_def deliveryConfig_def generateSignature_def Let_def)

lemma deliverWebhook_worldThird:
  "deliverWebhook worldThird deliveryConfig ''t1'' db1 hook1 ''event.created'' ''{}'' ''d-1'' =
     (Inr \<lparr>success = True, dr_statusCode = 200, response = Some ''ok'',
           dr_error = None, deliveryId = ''d-1'', attempt = 3\<rparr>,
      \<lparr>webhooks = [hook1\<lparr>wh_enabled := True, wh_updatedAt := ''t1''\<rparr>],
       deliveries = [\<lparr>wd_webhookId = ''123'', wd_eventId = ''d-1'', wd_status = ''success'',
                      wd_response = Some ''ok'', wd_error = None, wd_retryCount = 3\<rparr>]\<rparr>,
      replicate 3 (attemptRequest worldThird deliveryConfig hook1 ''event.created'' ''{}'' ''d-1''))"
proof -
  have m: "maxRetries deliveryConfig = 3" by (simp add: deliveryConfig_def)
  have p1: "\<And>req. post worldThird (0 + 1) req = HttpError ''Failed to deliver'' None"
    and p2: "\<And>req. post worldThird (0 + 1 + 1) req = HttpError ''Failed to deliver'' None"
    and p3: "\<And>req. post worldThird (0 + 1 + 1 + 1) req = HttpResponse 200 ''ok''"
    by (simp_all add: worldThird_def)
  have h: "\<exists>w \<in> set (webhooks db1). wh_id w = wh_id hook1" by (simp add: db1_def)
  show ?thesis
    unfolding deliverWebhook_def
    apply (subst loop_err[OF _ p1], simp add: m)
    apply (subst loop_err[OF _ p2], simp add: m)
    apply (subst loop_ok[OF _ h p3], simp add: m)
    apply (simp add: successResult_def deliveryRow_def recorded_def db1_def hook1_def
             worldThird_def numeral_3_eq_3)
    done
qed

text \<open>
  Claim C9. A trigger makes one delivery per subscriber found for the event type. Every
  request of the \<open>k\<close>-th delivery, whatever the attempt, goes to that subscriber's url with
  the payload as body and carries the signature
  \<open>hmacSha256Hex secret (jsonStringify payload)\<close> computed with that subscriber's secret,
  the webhook id, the event type, and the delivery id \<open>uuid k\<close> drawn once for that
  delivery.
\<close>

theorem triggerWebhooks_signed_attempts:
  "length (snd (snd (triggerWebhooks world deliveryConfig now db uuid eventType payload)))
     = length (findByEventType db eventType True)
   \<and> (\<forall>k < length (findByEventType db eventType True).
        \<forall>req \<in> set (snd (snd (triggerWebhooks world deliveryConfig now db uuid eventType payload)) ! k).
           req_url req = wh_url (findByEventType db eventType True ! k)
         \<and> req_data req = payload
         \<and> req_headers req ''x-webhook-signature''
             = Some (hmacSha256Hex world (wh_secret (findByEventType db eventType True ! k))
                       (jsonStringify world payload))
         \<and> req_headers req ''x-webhook-id'' = Some (wh_id (findByEventType db eventType True ! k))
         \<and> req_headers req ''x-delivery-id'' = Some (uuid k)
         \<and> req_headers req ''x-event-type'' = Some eventType)"
proof -
  let ?ws = "findByEventType db eventType True"
  let ?pairs = "zip ?ws (map uuid [0..<length ?ws])"
  have t: "snd (snd (triggerWebhooks world deliveryConfig now db uuid eventType payload))
           = snd (snd (deliverAll world deliveryConfig now db ?pairs eventType payload))"
    by (simp add: triggerWebhooks_def Let_def split: prod.splits)
  have l: "length ?pairs = length ?ws" by simp
  have p: "\<And>k. k < length ?ws \<Longrightarrow> ?pairs ! k = (?ws ! k, uuid k)" by simp
  from deliverAll_sents[of world deliveryConfig now db ?pairs eventType payload]
  have len: "length (snd (snd (deliverAll world deliveryConfig now db ?pairs eventType payload)))
               = length ?ws"
    and reqs: "\<And>k req. k < length ?ws \<Longrightarrow>
          req \<in> set (snd (snd (deliverAll world deliveryConfig now db ?pairs eventType payload)) ! k)
          \<Longrightarrow> req = attemptRequest world deliveryConfig (?ws ! k) eventType payload (uuid k)"
    using l p by auto
  show ?thesis
    unfolding t
  proof (intro conjI allI impI ballI)
    show "length (snd (snd (deliverAll world deliveryConfig now db ?pairs eventType payload)))
            = length ?ws" by (rule len)
  next
    fix k req
    assume k: "k < length ?ws"
      and r: "req \<in> set (snd (snd (deliverAll world deliveryConfig now db ?pairs eventType payload)) ! k)"
    note e = reqs[OF k r]
    note hd = attemptRequest_headers[of world "?ws ! k" eventType payload "uuid k"]
    from hd show "req_url req = wh_url (?ws ! k)" unfolding e by blast
    from hd show "req_data req = payload" unfolding e by blast
    from hd show "req_headers req ''x-webhook-signature''
             = Some (hmacSha256Hex world (wh_secret (?ws ! k)) (jsonStringify world payload))"
      unfolding e by blast
    from hd show "req_headers req ''x-webhook-id'' = Some (wh_id (?ws ! k))" unfolding e by blast
    from hd show "req_headers req ''x-delivery-id'' = Some (uuid k)" unfolding e by blast
    from hd show "req_headers req ''x-event-type'' = Some eventType" unfolding e by blast
  qed
qed

theorem triggerWebhooks_signed_attempts_witness:
  "0 < length (findByEventType db1 ''event.created'' True)
   \<and> snd (snd (triggerWebhooks worldThird deliveryConfig ''t1'' db1 (\<lambda>k. ''d-1'')
                  ''event.created'' ''{}'')) ! 0
      = replicate 3 (attemptRequest worldThird deliveryConfig hook1 ''event.created'' ''{}'' ''d-1'')
   \<and> req_headers (attemptRequest worldThird deliveryConfig hook1 ''event.created'' ''{}'' ''d-1'')
         ''x-webhook-signature'' = Some ''webhook-secret-123456:{}''
   \<and> req_headers (attemptRequest worldThird deliveryConfig hook1 ''event.created'' ''{}'' ''d-1'')
         ''x-delivery-id'' = Some ''d-1''"
proof -
  have f: "findByEventType db1 ''event.created'' True = [hook1]"
    by (simp add: findByEventType_def db1_def hook1_def)
  have s: "snd (snd (triggerWebhooks worldThird deliveryConfig ''t1'' db1 (\<lambda>k. ''d-1'')
                  ''event.created'' ''{}'')) ! 0
      = replicate 3 (attemptRequest worldThird deliveryConfig hook1 ''event.created'' ''{}'' ''d-1'')"
    by (simp add: triggerWebhooks_def f deliverWebhook_worldThird)
  have w: "wh_secret hook1 = ''webhook-secret-123456''"
          "hmacSha256Hex worldThird = (\<lambda>key msg. key @ '':'' @ msg)"
          "jsonStringify worldThird = (\<lambda>p. p)"
    by (simp_all add: hook1_def worldThird_def)
  from triggerWebhooks_signed_attempts
         [of worldThird "''t1''" db1 "\<lambda>k. ''d-1''" "''event.created''" "''{}''"]
  show ?thesis
    using w by (simp add: f s)
qed

section \<open>Batch ingestion: the loops return\<close>


lemma chunk_loop_Some:
  assumes "0 < CHUNK_SIZE"
  shows "\<exists>cs. chunk_loop CHUNK_SIZE events i chunks = Some (chunks @ cs)
            \<and> concat cs = drop i events"
proof (induction "length events - i" arbitrary: i chunks rule: less_induct)
  case less
  show ?case
  proof (cases "i < length events")
    case False
    then show ?thesis by (subst chunk_loop.simps) simp
  next
    case True
    then have "length events - (i + CHUNK_SIZE) < length events - i" using assms by arith
    from less[OF this, of "chunks @ [slice events i (i + CHUNK_SIZE)]"]
    obtain cs where c: "chunk_loop CHUNK_SIZE events (i + CHUNK_SIZE)
                           (chunks @ [slice events i (i + CHUNK_SIZE)])
                         = Some ((chunks @ [slice events i (i + CHUNK_SIZE)]) @ cs)"
      and d: "concat cs = drop (i + CHUNK_SIZE) events" by blast
    have "take CHUNK_SIZE (drop i events) @ drop (i + CHUNK_SIZE) events = drop i events"
      by (metis add.commute append_take_drop_id drop_drop)
    then have "concat (slice events i (i + CHUNK_SIZE) # cs) = drop i events"
      using d by (simp add: slice_def)
    moreover have "chunk_loop CHUNK_SIZE events i chunks
                     = Some (chunks @ (slice events i (i + CHUNK_SIZE) # cs))"
      using True c by (subst chunk_loop.simps) simp
    ultimately show ?thesis by blast
  qed
qed

lemma wave_loop_Some:
  assumes "0 < MAX_CONCURRENT"
  shows "wave_loop MAX_CONCURRENT process chunks i results
           = Some (results @ map process (concat (drop i chunks)))"
proof (induction "length chunks - i" arbitrary: i results rule: less_induct)
  case less
  show ?case
  proof (cases "i < length chunks")
    case False
    then show ?thesis by (subst wave_loop.simps) simp
  next
    case True
    then have "length chunks - (i + MAX_CONCURRENT) < length chunks - i" using assms by arith
    note ih = less[OF this,
        of "results @ concat (map (map process) (slice chunks i (i + MAX_CONCURRENT)))"]
    have "take MAX_CONCURRENT (drop i chunks) @ drop (i + MAX_CONCURRENT) chunks = drop i chunks"
      by (metis add.commute append_take_drop_id drop_drop)
    then have "map process (concat (drop i chunks))
         = concat (map (map process) (slice chunks i (i + MAX_CONCURRENT)))
             @ map process (concat (drop (i + MAX_CONCURRENT) chunks))"
      by (metis concat_append map_append map_concat slice_def add_diff_cancel_left')
    then show ?thesis
      using True ih by (subst wave_loop.simps) simp
  qed
qed

lemma fold_max_init: "fold max xs (a::nat) = max a (fold max xs 0)"
proof (induction xs arbitrary: a)
  case Nil
  then show ?case by simp
next
  case (Cons x xs)
  from Cons[of "max x a"] Cons[of "max x 0"] show ?case by simp
qed

lemma await_all_caught:
  "await_all (map catch_log ps)
     = (fold max (map settledAfter ps) 0,
        Inr (map (\<lambda>p. case settled p of Fulfilled v \<Rightarrow> Some v | Rejected e \<Rightarrow> None) ps))"
proof (induction ps)
  case Nil
  then show ?case by simp
next
  case (Cons p ps)
  show ?case
    using Cons fold_max_init[of "map settledAfter ps" "max (settledAfter p) 0"]
    by (simp add: catch_log_def)
qed

lemma createBatchEvents_accepted:
  assumes "0 < CHUNK_SIZE" "0 < MAX_CONCURRENT" "1 \<le> length events" "length events \<le> 1000"
  shows "createBatchEvents CHUNK_SIZE MAX_CONCURRENT env trigger events =
           Some \<lparr>returned = Inr (map (\<lambda>item. fst (processItem env item))
                                  (zip [0..<length events] events)),
                 createCalls = map (\<lambda>item. snd (processItem env item))
                                  (zip [0..<length events] events),
                 triggered = filter (\<lambda>event. ev_status event \<noteq> ''failed'')
                               (map (\<lambda>item. fst (processItem env item))
                                  (zip [0..<length events] events)),
                 waited = fold max
                            (map (\<lambda>event. settledAfter (trigger event))
                               (filter (\<lambda>event. ev_status event \<noteq> ''failed'')
                                  (map (\<lambda>item. fst (processItem env item))
                                     (zip [0..<length events] events)))) 0\<rparr>"
proof -
  let ?items = "zip [0..<length events] events"
  have v: "validateBatchSize (length events) = Inr ()"
    using assms by (auto simp add: validateBatchSize_def MAX_BATCH_SIZE_def)
  from chunk_loop_Some[OF assms(1), of ?items 0 "[]"]
  obtain cs where c: "chunk_loop CHUNK_SIZE ?items 0 [] = Some cs" and d: "concat cs = ?items"
    by auto
  have w: "wave_loop MAX_CONCURRENT (processItem env) cs 0 [] = Some (map (processItem env) ?items)"
    using wave_loop_Some[OF assms(2), of "processItem env" cs 0 "[]"] d by simp
  have a: "\<And>es. await_all (map (\<lambda>event. catch_log (trigger event)) es)
          = (fold max (map (\<lambda>event. settledAfter (trigger event)) es) 0,
             Inr (map (\<lambda>p. case settled p of Fulfilled v \<Rightarrow> Some v | Rejected e \<Rightarrow> None)
                    (map trigger es)))"
    using await_all_caught[of "map trigger es" for es] by (simp add: comp_def)
  show ?thesis
    by (simp add: createBatchEvents_def v c w a Let_def comp_def)
qed

lemma processed_nth:
  "k < length events \<Longrightarrow>
     map (\<lambda>item. fst (processItem env item)) (zip [0..<length events] events) ! k
       = (case createOutcome (env k) (createArg (env k) (events ! k)) of
            Inr created \<Rightarrow> created
          | Inl err \<Rightarrow> failedEvent (env k) (events ! k) err)"
  by (simp add: processItem_def split: sum.splits)

lemma sample_batch:
  "map_option returned (createBatchEvents 1 1 envFirstThrows slowTrigger [event1, event1])
     = Some (Inr [failedEvent envThrows event1 (ThrownError (Error ''fail'')),
                  EventInput.extend event1
                    (Event.fields ''evt-1'' ''2023-01-02T00:00:00.001Z''
                       ''2023-01-02T00:00:00.001Z'' None None)])"
  "map_option returned (createBatchEvents 1 1 (\<lambda>k. envStored) slowTrigger [event1, event1])
     = Some (Inr [EventInput.extend event1
                    (Event.fields ''evt-1'' ''2023-01-02T00:00:00.001Z''
                       ''2023-01-02T00:00:00.001Z'' None None),
                  EventInput.extend event1
                    (Event.fields ''evt-1'' ''2023-01-02T00:00:00.001Z''
                       ''2023-01-02T00:00:00.001Z'' None None)])"
  by (simp_all add: createBatchEvents_accepted upt_rec[of 0] upt_rec[of 1] upt_rec[of "Suc 0"])
     (simp_all add: processItem_def envFirstThrows_def envThrows_def envStored_def createArg_def
        falsy_def event1_def)

lemma createBatchEvents_results_ignore_webhooks:
  assumes "0 < CHUNK_SIZE" "0 < MAX_CONCURRENT" "1 \<le> length events" "length events \<le> 1000"
  shows "map_option returned (createBatchEvents CHUNK_SIZE MAX_CONCURRENT env trigger events)
           = map_option returned (createBatchEvents CHUNK_SIZE MAX_CONCURRENT env trigger' events)
       \<and> map_option createCalls (createBatchEvents CHUNK_SIZE MAX_CONCURRENT env trigger events)
           = map_option createCalls (createBatchEvents CHUNK_SIZE MAX_CONCURRENT env trigger' events)"
  by (simp add: createBatchEvents_accepted[OF assms])

text \<open>
  With a chunk size or a concurrency bound of zero the loops do not end, and the call does
  not return for any batch that passes the size validation.
\<close>

lemma chunk_loop_zero_step:
  assumes "chunk_loop CHUNK_SIZE events i chunks = Some result"
  shows "CHUNK_SIZE \<noteq> 0 \<or> \<not> i < length events"
proof (rule chunk_loop.raw_induct
         [where P = "\<lambda>C events i chunks y. C \<noteq> 0 \<or> \<not> i < length events", OF _ assms])
  fix loop :: "nat \<Rightarrow> 'a list \<Rightarrow> nat \<Rightarrow> 'a list list \<Rightarrow> 'a list list option"
    and C evs j cs y
  assume ih: "\<And>C evs j cs y. loop C evs j cs = Some y \<Longrightarrow> C \<noteq> 0 \<or> \<not> j < length evs"
    and st: "(if j < length evs then loop C evs (j + C) (cs @ [slice evs j (j + C)])
             else Some cs) = Some y"
  show "C \<noteq> 0 \<or> \<not> j < length evs"
  proof (cases "j < length evs")
    case False
    then show ?thesis by simp
  next
    case True
    with st have "loop C evs (j + C) (cs @ [slice evs j (j + C)]) = Some y" by simp
    from ih[OF this] True show ?thesis by auto
  qed
qed

lemma createBatchEvents_zero_chunk_size:
  assumes "1 \<le> length events" "length events \<le> 1000"
  shows "createBatchEvents 0 MAX_CONCURRENT env trigger events = None"
proof -
  have v: "validateBatchSize (length events) = Inr ()"
    using assms by (auto simp add: validateBatchSize_def MAX_BATCH_SIZE_def)
  have "chunk_loop 0 (zip [0..<length events] events) 0 [] = None"
  proof (cases "chunk_loop 0 (zip [0..<length events] events) 0 []")
    case None then show ?thesis .
  next
    case (Some r)
    from chunk_loop_zero_step[OF Some] assms show ?thesis by simp
  qed
  then show ?thesis by (simp add: createBatchEvents_def v)
qed

lemma wave_loop_zero_step:
  fixes process :: "'a \<Rightarrow> 'b"
  assumes "wave_loop MAX_CONCURRENT process chunks i results = Some result"
  shows "MAX_CONCURRENT \<noteq> 0 \<or> \<not> i < length chunks"
proof (rule wave_loop.raw_induct
         [where P = "\<lambda>M process chunks i results y. M \<noteq> 0 \<or> \<not> i < length chunks",
          OF _ assms])
  fix loop :: "nat \<Rightarrow> ('a \<Rightarrow> 'b) \<Rightarrow> 'a list list \<Rightarrow> nat \<Rightarrow> 'b list \<Rightarrow> 'b list option"
    and M f cs j rs y
  assume ih: "\<And>M f cs j rs y. loop M f cs j rs = Some y \<Longrightarrow> M \<noteq> 0 \<or> \<not> j < length cs"
    and st: "(if j < length cs
              then loop M f cs (j + M) (rs @ concat (map (map f) (slice cs j (j + M))))
              else Some rs) = Some y"
  show "M \<noteq> 0 \<or> \<not> j < length cs"
  proof (cases "j < length cs")
    case False
    then show ?thesis by simp
  next
    case True
    with st have "loop M f cs (j + M) (rs @ concat (map (map f) (slice cs j (j + M)))) = Some y"
      by simp
    from ih[OF this] True show ?thesis by auto
  qed
qed

lemma createBatchEvents_zero_concurrency:
  assumes "0 < CHUNK_SIZE" "1 \<le> length events" "length events \<le> 1000"
  shows "createBatchEvents CHUNK_SIZE 0 env trigger events = None"
proof -
  have v: "validateBatchSize (length events) = Inr ()"
    using assms by (auto simp add: validateBatchSize_def MAX_BATCH_SIZE_def)
  from chunk_loop_Some[OF assms(1), of "zip [0..<length events] events" 0 "[]"]
  obtain cs where c: "chunk_loop CHUNK_SIZE (zip [0..<length events] events) 0 [] = Some cs"
    and d: "concat cs = zip [0..<length events] events"
    by auto
  from d assms(2) have ne: "0 < length cs" by (cases cs) auto
  have "wave_loop 0 (processItem env) cs 0 [] = None"
  proof (cases "wave_loop 0 (processItem env) cs 0 []")
    case None then show ?thesis .
  next
    case (Some r)
    from wave_loop_zero_step[OF Some] ne show ?thesis by simp
  qed
  then show ?thesis by (simp add: createBatchEvents_def v c)
qed

section \<open>Batch ingestion: size validation\<close>

text \<open>
  Claim C10. A batch of size zero and a batch of more than 1000 items are rejected by
  \<open>validateBatchSize\<close> with the validator's \<open>ZodError\<close>, whatever the chunk size and the
  concurrency bound: the call returns the error before any chunking, makes no create call
  (nothing is stored) and triggers no webhook. The witness is a batch of 1001 items.
\<close>

theorem createBatchEvents_rejects_bad_size:
  "(length events = 0 \<longrightarrow>
      createBatchEvents CHUNK_SIZE MAX_CONCURRENT env trigger events
        = Some \<lparr>returned = Inl (ThrownError (ZodError ''Number must be greater than or equal to 1'')),
                createCalls = [], triggered = [], waited = 0\<rparr>)
   \<and> (length events > 1000 \<longrightarrow>
      createBatchEvents CHUNK_SIZE MAX_CONCURRENT env trigger events
        = Some \<lparr>returned = Inl (ThrownError (ZodError ''Number must be less than or equal to 1000'')),
                createCalls = [], triggered = [], waited = 0\<rparr>)"
  by (simp add: createBatchEvents_def validateBatchSize_def MAX_BATCH_SIZE_def)

theorem createBatchEvents_rejects_bad_size_witness:
  "length (replicate 1001 event1) > 1000
   \<and> map_option createCalls
       (createBatchEvents 100 5 (\<lambda>k. envStored) slowTrigger (replicate 1001 event1)) = Some []
   \<and> map_option returned
       (createBatchEvents 100 5 (\<lambda>k. envStored) slowTrigger (replicate 1001 event1))
      = Some (Inl (ThrownError (ZodError ''Number must be less than or equal to 1000'')))
   \<and> map_option returned (createBatchEvents 100 5 (\<lambda>k. envStored) slowTrigger [])
      = Some (Inl (ThrownError (ZodError ''Number must be greater than or equal to 1'')))"
  using createBatchEvents_rejects_bad_size
          [of "replicate 1001 event1" 100 5 "\<lambda>k. envStored" slowTrigger]
        createBatchEvents_rejects_bad_size
          [of "[]" 100 5 "\<lambda>k. envStored" slowTrigger]
  by simp

section \<open>Batch ingestion: order of the results\<close>

text \<open>
  Claim C3. For every batch accepted for processing (1 to 1000 items), every chunk size
  \<open>C \<ge> 1\<close> and every concurrency bound \<open>M \<ge> 1\<close>, batch ingestion returns, and
  returns exactly one result per item in the order of the input: the result at position
  \<open>k\<close> is the event stored for item \<open>k\<close>, or the placeholder of item \<open>k\<close> when its
  create threw. The list is the same for every such \<open>C\<close> and \<open>M\<close>.
\<close>

theorem createBatchEvents_order:
  assumes "0 < CHUNK_SIZE" "0 < MAX_CONCURRENT" "1 \<le> length events" "length events \<le> 1000"
  shows "\<exists>run results.
           createBatchEvents CHUNK_SIZE MAX_CONCURRENT env trigger events = Some run
         \<and> returned run = Inr results
         \<and> length results = length events
         \<and> (\<forall>k < length events.
               results ! k
                 = (case createOutcome (env k) (createArg (env k) (events ! k)) of
                      Inr created \<Rightarrow> created
                    | Inl err \<Rightarrow> failedEvent (env k) (events ! k) err))
         \<and> (\<forall>C M. 0 < C \<and> 0 < M \<longrightarrow>
               map_option returned (createBatchEvents C M env trigger events)
                 = Some (Inr results))"
proof -
  let ?results = "map (\<lambda>item. fst (processItem env item)) (zip [0..<length events] events)"
  note a = createBatchEvents_accepted[OF _ _ assms(3,4), of _ _ env trigger]
  have "\<exists>run. createBatchEvents CHUNK_SIZE MAX_CONCURRENT env trigger events = Some run
           \<and> returned run = Inr ?results"
    using a[OF assms(1,2)] by simp
  moreover have "length ?results = length events" by simp
  moreover have "\<forall>k < length events.
               ?results ! k
                 = (case createOutcome (env k) (createArg (env k) (events ! k)) of
                      Inr created \<Rightarrow> created
                    | Inl err \<Rightarrow> failedEvent (env k) (events ! k) err)"
    using processed_nth[of _ events env] by blast
  moreover have "\<forall>C M. 0 < C \<and> 0 < M \<longrightarrow>
               map_option returned (createBatchEvents C M env trigger events)
                 = Some (Inr ?results)"
    using a by simp
  ultimately show ?thesis by blast
qed

theorem createBatchEvents_order_witness:
  "(0::nat) < 1 \<and> 1 \<le> length [event1, event1] \<and> length [event1, event1] \<le> 1000
   \<and> map_option returned (createBatchEvents 1 1 envFirstThrows slowTrigger [event1, event1])
     = Some (Inr [failedEvent envThrows event1 (ThrownError (Error ''fail'')),
                  EventInput.extend event1
                    (Event.fields ''evt-1'' ''2023-01-02T00:00:00.001Z''
                       ''2023-01-02T00:00:00.001Z'' None None)])
   \<and> map_option returned (createBatchEvents 7 3 envFirstThrows slowTrigger [event1, event1])
     = map_option returned (createBatchEvents 1 1 envFirstThrows slowTrigger [event1, event1])"
proof -
  have h: "(0::nat) < 1" "1 \<le> length [event1, event1]" "length [event1, event1] \<le> 1000"
    by simp_all
  from createBatchEvents_order[OF h(1) h(1) h(2) h(3), of envFirstThrows slowTrigger]
  obtain run results where
    r: "createBatchEvents 1 1 envFirstThrows slowTrigger [event1, event1] = Some run"
       "returned run = Inr results"
    and a: "\<forall>C M. 0 < C \<and> 0 < M \<longrightarrow>
               map_option returned (createBatchEvents C M envFirstThrows slowTrigger [event1, event1])
                 = Some (Inr results)"
    by blast
  from a have "map_option returned (createBatchEvents 7 3 envFirstThrows slowTrigger [event1, event1])
                 = Some (Inr results)" by simp
  with r have "map_option returned (createBatchEvents 7 3 envFirstThrows slowTrigger [event1, event1])
     = map_option returned (createBatchEvents 1 1 envFirstThrows slowTrigger [event1, event1])"
    by simp
  with h sample_batch(1) show ?thesis by simp
qed

section \<open>Batch ingestion: isolation of a failed item\<close>

text \<open>
  Claim C4. For every batch accepted for processing, with a chunk size and a concurrency
  bound of at least 1: when the create of item \<open>i\<close> throws, the batch is still processed
  to the end and the result of item \<open>i\<close> is the placeholder: the input's fields with status
  \<open>failed\<close>, the message of the error (\<open>Unknown error\<close> for a thrown value that is not an
  \<open>Error\<close>) and the empty id. In any other run on the same batch in which the world
  answers every other item in the same way, whatever happens to item \<open>i\<close> and to the
  webhooks, every other item has the same result.
\<close>

theorem createBatchEvents_isolation:
  assumes "0 < CHUNK_SIZE" "0 < MAX_CONCURRENT" "1 \<le> length events" "length events \<le> 1000"
    and "i < length events"
    and "createOutcome (env i) (createArg (env i) (events ! i)) = Inl err"
    and "\<forall>k. k \<noteq> i \<longrightarrow> env' k = env k"
  shows "\<exists>results results'.
           map_option returned (createBatchEvents CHUNK_SIZE MAX_CONCURRENT env trigger events)
             = Some (Inr results)
         \<and> map_option returned (createBatchEvents CHUNK_SIZE MAX_CONCURRENT env' trigger' events)
             = Some (Inr results')
         \<and> length results = length events
         \<and> length results' = length events
         \<and> results ! i = failedEvent (env i) (events ! i) err
         \<and> ev_status (results ! i) = ''failed''
         \<and> ev_error (results ! i)
             = Some (case err of ThrownError e \<Rightarrow> errorMessage e | ThrownOther \<Rightarrow> ''Unknown error'')
         \<and> ev_id (results ! i) = []
         \<and> (\<forall>j < length events. j \<noteq> i \<longrightarrow> results ! j = results' ! j)"
proof -
  let ?results = "map (\<lambda>item. fst (processItem env item)) (zip [0..<length events] events)"
  let ?results' = "map (\<lambda>item. fst (processItem env' item)) (zip [0..<length events] events)"
  have r: "map_option returned (createBatchEvents CHUNK_SIZE MAX_CONCURRENT env trigger events)
             = Some (Inr ?results)"
    using createBatchEvents_accepted[OF assms(1-4), of env trigger] by simp
  have r': "map_option returned (createBatchEvents CHUNK_SIZE MAX_CONCURRENT env' trigger' events)
             = Some (Inr ?results')"
    using createBatchEvents_accepted[OF assms(1-4), of env' trigger'] by simp
  have i: "?results ! i = failedEvent (env i) (events ! i) err"
    using processed_nth[OF assms(5), of env] assms(6) by simp
  have f: "ev_status (failedEvent (env i) (events ! i) err) = ''failed''"
       "ev_error (failedEvent (env i) (events ! i) err)
             = Some (case err of ThrownError e \<Rightarrow> errorMessage e | ThrownOther \<Rightarrow> ''Unknown error'')"
       "ev_id (failedEvent (env i) (events ! i) err) = []"
    by (simp_all add: failedEvent_def EventInput.defs Event.defs)
  have o: "\<forall>j < length events. j \<noteq> i \<longrightarrow> ?results ! j = ?results' ! j"
  proof (intro allI impI)
    fix j assume "j < length events" "j \<noteq> i"
    moreover from \<open>j \<noteq> i\<close> assms(7) have "env' j = env j" by simp
    ultimately show "?results ! j = ?results' ! j"
      by (simp add: processItem_def split: sum.splits)
  qed
  from r r' i f o show ?thesis
    by (intro exI[of _ ?results] exI[of _ ?results']) simp
qed

theorem createBatchEvents_isolation_witness:
  "map_option (\<lambda>run. map_sum (\<lambda>e. e) (map ev_status) (returned run))
      (createBatchEvents 1 1 envFirstThrows slowTrigger [event1, event1])
     = Some (Inr [''failed'', ''pending''])
   \<and> map_option (\<lambda>run. map_sum (\<lambda>e. e) (map ev_status) (returned run))
      (createBatchEvents 1 1 (\<lambda>k. envStored) slowTrigger [event1, event1])
     = Some (Inr [''pending'', ''pending''])
   \<and> map_option (\<lambda>run. map_sum (\<lambda>e. e) (map ev_id) (returned run))
      (createBatchEvents 1 1 envFirstThrows slowTrigger [event1, event1])
     = Some (Inr ['''', ''evt-1''])"
proof -
  have h: "(0::nat) < 1" "1 \<le> length [event1, event1]" "length [event1, event1] \<le> 1000"
          "0 < length [event1, event1]"
    by simp_all
  have c: "createOutcome (envFirstThrows 0) (createArg (envFirstThrows 0) ([event1, event1] ! 0))
             = Inl (ThrownError (Error ''fail''))"
    by (simp add: envFirstThrows_def envThrows_def)
  have o: "\<forall>k. k \<noteq> 0 \<longrightarrow> (\<lambda>k. envStored) k = envFirstThrows k"
    by (simp add: envFirstThrows_def)
  from createBatchEvents_isolation[OF h(1) h(1) h(2) h(3) h(4) c o, of slowTrigger slowTrigger]
  obtain results results' where
    r: "map_option returned (createBatchEvents 1 1 envFirstThrows slowTrigger [event1, event1])
             = Some (Inr results)"
    and r': "map_option returned (createBatchEvents 1 1 (\<lambda>k. envStored) slowTrigger [event1, event1])
             = Some (Inr results')"
    and l: "length results = length [event1, event1]"
    and s: "ev_status (results ! 0) = ''failed''" "ev_id (results ! 0) = []"
    and j: "\<forall>j < length [event1, event1]. j \<noteq> 0 \<longrightarrow> results ! j = results' ! j"
    by blast
  from r'[unfolded sample_batch(2)] have e': "results' = [EventInput.extend event1
                    (Event.fields ''evt-1'' ''2023-01-02T00:00:00.001Z''
                       ''2023-01-02T00:00:00.001Z'' None None),
                  EventInput.extend event1
                    (Event.fields ''evt-1'' ''2023-01-02T00:00:00.001Z''
                       ''2023-01-02T00:00:00.001Z'' None None)]" by simp
  from j have "results ! 1 = results' ! 1" by simp
  with e' have s1: "ev_status (results ! 1) = ''pending''" "ev_id (results ! 1) = ''evt-1''"
    by (simp_all add: event1_def EventInput.defs Event.defs)
  from l obtain a b where ab: "results = [a, b]"
    by (cases results; cases "tl results") auto
  with s s1 have st: "map ev_status results = [''failed'', ''pending'']"
     "map ev_id results = ['''', ''evt-1'']" by simp_all
  have st': "map ev_status results' = [''pending'', ''pending'']"
    unfolding e' by (simp add: event1_def EventInput.defs Event.defs)
  from r r' st st' show ?thesis
    by (cases "createBatchEvents 1 1 envFirstThrows slowTrigger [event1, event1]";
        cases "createBatchEvents 1 1 (\<lambda>k. envStored) slowTrigger [event1, event1]") auto
qed

section \<open>Batch ingestion: waiting for the webhooks\<close>

text \<open>
  Claim C2. The results of a batch do not depend on what the webhook promises settle to
  (\<open>createBatchEvents_results_ignore_webhooks\<close>), but the call does wait for them:
  \<open>createBatchEvents\<close> awaits \<^verbatim>\<open>Promise.all\<close> over the triggers before it returns. For
  one stored event whose trigger takes 36 seconds to settle, the batch path settles 36000
  milliseconds after the item was processed, with the very event that the single-event
  path \<open>createEvent\<close> returns without waiting.
\<close>

theorem createBatchEvents_awaits_webhooks:
  "map_option waited (createBatchEvents 100 5 (\<lambda>k. envStored) slowTrigger [event1]) = Some 36000
   \<and> map_option returned (createBatchEvents 100 5 (\<lambda>k. envStored) slowTrigger [event1])
       = Some (returned (createEvent envStored slowTrigger event1))
   \<and> waited (createEvent envStored slowTrigger event1) = 0"
  by (simp add: createBatchEvents_accepted)
     (simp add: processItem_def createEvent_def envStored_def slowTrigger_def event1_def
        createArg_def falsy_def EventInput.defs Event.defs)


end
